theory Spec2Isabelle
  imports Main "HOL-Library.Sublist" "HOL-Library.AList" "HOL-Library.Multiset"
begin

section \<open>Errors\<close>

text \<open>
  The sentinel errors of \<^verbatim>\<open>internal/core/domain/errors.go\<close>, and the errors built with
  \<^verbatim>\<open>fmt.Errorf\<close>: a message and, where the format wraps a cause with \<^verbatim>\<open>%w\<close>, that cause.
  A Go result \<^verbatim>\<open>(v, error)\<close> is a value of \<open>error + 'a\<close>, \<open>Inl\<close> being the error.
\<close>

datatype error =
    ErrNotFound
  | ErrAlreadyExists
  | ErrInvalidInput
  | ErrUnauthorized
  | ErrServiceUnavailable
  | Errorf string "error option"

section \<open>RBAC engine (\<^verbatim>\<open>rbac_enforcer_impl.go\<close>)\<close>

text \<open>
  The engine holds nothing but its repository. Of the repository only the two reads that
  \<^verbatim>\<open>Enforce\<close> performs are modelled: \<^verbatim>\<open>GetPolicy()\<close>, a list of string lists or an error, and
  \<^verbatim>\<open>GetRolesForUser(user)\<close>, a list of role names or an error.
\<close>

record RBACPolicyRepository =
  rbac_GetPolicy :: "error + string list list"
  rbac_GetRolesForUser :: "string \<Rightarrow> error + string list"

text \<open>The loop \<^verbatim>\<open>for _, p := range policies\<close> with its early \<^verbatim>\<open>return true\<close>.\<close>

fun match_policies :: "string list list \<Rightarrow> string \<Rightarrow> string \<Rightarrow> string \<Rightarrow> bool" where
  "match_policies [] sub obj act = False"
| "match_policies (p # ps) sub obj act =
     (if length p = 3 \<and> p ! 0 = sub \<and> p ! 1 = obj \<and> p ! 2 = act then True
      else match_policies ps sub obj act)"

text \<open>The loop \<^verbatim>\<open>for _, role := range roles\<close> around the same policy loop.\<close>

fun match_roles :: "string list \<Rightarrow> string list list \<Rightarrow> string \<Rightarrow> string \<Rightarrow> bool" where
  "match_roles [] policies obj act = False"
| "match_roles (role # roles) policies obj act =
     (if match_policies policies role obj act then True
      else match_roles roles policies obj act)"

definition RBAC_Enforce ::
  "RBACPolicyRepository \<Rightarrow> string \<Rightarrow> string \<Rightarrow> string \<Rightarrow> error + bool" where
  "RBAC_Enforce repo sub obj act =
     (case rbac_GetPolicy repo of
        Inl err \<Rightarrow> Inl err
      | Inr policies \<Rightarrow>
          if match_policies policies sub obj act then Inr True
          else (case rbac_GetRolesForUser repo sub of
                  Inl err \<Rightarrow> Inl err
                | Inr roles \<Rightarrow> Inr (match_roles roles policies obj act)))"

section \<open>Dispatcher\<close>

definition ModelACL :: string where "ModelACL = ''acl''"
definition ModelRBAC :: string where "ModelRBAC = ''rbac''"
definition ModelABAC :: string where "ModelABAC = ''abac''"
definition ModelReBAC :: string where "ModelReBAC = ''rebac''"

text \<open>
  \<^verbatim>\<open>AuthorizationServiceImpl\<close> (\<^verbatim>\<open>authorization_service_impl.go\<close>) holds four optional
  enforcers; a nil interface value is \<open>None\<close>. Of each enforcer only its \<^verbatim>\<open>Enforce\<close> method
  is used here.
\<close>

record AuthorizationServiceImpl =
  aclEnforcer :: "(string \<Rightarrow> string \<Rightarrow> string \<Rightarrow> error + bool) option"
  rbacEnforcer :: "(string \<Rightarrow> string \<Rightarrow> string \<Rightarrow> error + bool) option"
  abacEnforcer :: "(string \<Rightarrow> string \<Rightarrow> string \<Rightarrow> (string \<rightharpoonup> string) \<Rightarrow> error + bool) option"
  rebacEnforcer :: "(string \<Rightarrow> string \<Rightarrow> string \<Rightarrow> error + bool \<times> string) option"

definition Service_Enforce ::
  "AuthorizationServiceImpl \<Rightarrow> string \<Rightarrow> string \<Rightarrow> string \<Rightarrow> string \<Rightarrow>
   (string \<rightharpoonup> string) \<Rightarrow> error + bool" where
  "Service_Enforce s model sub obj act attributes =
     (if model = ModelACL then
        (case aclEnforcer s of None \<Rightarrow> Inl ErrServiceUnavailable
         | Some enf \<Rightarrow> enf sub obj act)
      else if model = ModelRBAC then
        (case rbacEnforcer s of None \<Rightarrow> Inl ErrServiceUnavailable
         | Some enf \<Rightarrow> enf sub obj act)
      else if model = ModelABAC then
        (case abacEnforcer s of None \<Rightarrow> Inl ErrServiceUnavailable
         | Some enf \<Rightarrow> enf sub obj act attributes)
      else if model = ModelReBAC then
        (case rebacEnforcer s of None \<Rightarrow> Inl ErrServiceUnavailable
         | Some enf \<Rightarrow>
             (case enf sub obj act of Inl err \<Rightarrow> Inl err
              | Inr (allowed, path) \<Rightarrow> Inr allowed))
      else Inl (Errorf (''invalid model specified: '' @ model) None))"

text \<open>
  \<^verbatim>\<open>AuthService.Enforce\<close> of \<^verbatim>\<open>main.go\<close>, the single-file service. Its ACL and RBAC
  enforcers are Casbin enforcers, taken here as functions; \<^verbatim>\<open>matchABACAttributes\<close> and
  \<^verbatim>\<open>relationshipGraph.CheckReBACAccess\<close> are taken as functions as well. The first
  statement of the body replaces an empty model by \<^verbatim>\<open>ModelRBAC\<close>.
\<close>

record AuthService =
  casbin_acl :: "string \<Rightarrow> string \<Rightarrow> string \<Rightarrow> error + bool"
  casbin_rbac :: "string \<Rightarrow> string \<Rightarrow> string \<Rightarrow> error + bool"
  matchABACAttributes :: "string \<Rightarrow> string \<Rightarrow> string \<Rightarrow> (string \<rightharpoonup> string) \<Rightarrow> bool"
  CheckReBACAccess :: "string \<Rightarrow> string \<Rightarrow> string \<Rightarrow> bool \<times> string"

definition AuthService_Enforce ::
  "AuthService \<Rightarrow> string \<Rightarrow> string \<Rightarrow> string \<Rightarrow> string \<Rightarrow>
   (string \<rightharpoonup> string) \<Rightarrow> error + bool" where
  "AuthService_Enforce s model0 sub obj act attributes =
     (let model = (if model0 = [] then ModelRBAC else model0) in
      if model = ModelACL then casbin_acl s sub obj act
      else if model = ModelRBAC then casbin_rbac s sub obj act
      else if model = ModelABAC then Inr (matchABACAttributes s sub obj act attributes)
      else if model = ModelReBAC then Inr (fst (CheckReBACAccess s sub obj act))
      else Inl (Errorf (''invalid model specified: '' @ model) None))"

section \<open>Strings\<close>

text \<open>
  Go strings are byte sequences, here \<open>char list\<close>. \<^verbatim>\<open>strings.HasPrefix\<close>,
  \<^verbatim>\<open>strings.HasSuffix\<close>, \<^verbatim>\<open>strings.Contains\<close>, \<^verbatim>\<open>strings.Compare\<close> and \<^verbatim>\<open>strings.Split\<close>
  with a one-byte separator are written out.
\<close>

fun HasPrefix :: "string \<Rightarrow> string \<Rightarrow> bool" where
  "HasPrefix s [] = True"
| "HasPrefix [] (p # ps) = False"
| "HasPrefix (x # xs) (p # ps) = (x = p \<and> HasPrefix xs ps)"

definition HasSuffix :: "string \<Rightarrow> string \<Rightarrow> bool" where
  "HasSuffix s suf = HasPrefix (rev s) (rev suf)"

fun Contains :: "string \<Rightarrow> string \<Rightarrow> bool" where
  "Contains [] substr = (substr = [])"
| "Contains (x # xs) substr = (HasPrefix (x # xs) substr \<or> Contains xs substr)"

fun Compare :: "string \<Rightarrow> string \<Rightarrow> int" where
  "Compare [] [] = 0"
| "Compare [] (y # ys) = - 1"
| "Compare (x # xs) [] = 1"
| "Compare (x # xs) (y # ys) =
     (if (of_char x :: nat) < of_char y then - 1
      else if (of_char y :: nat) < of_char x then 1
      else Compare xs ys)"

text \<open>
  \<^verbatim>\<open>strings.Split(s, sep)\<close> for a separator of one byte: one more part than there are
  separators in \<open>s\<close>, so a single empty part for the empty string.
\<close>

fun Split :: "string \<Rightarrow> char \<Rightarrow> string list" where
  "Split [] sep = [[]]"
| "Split (x # xs) sep =
     (if x = sep then [] # Split xs sep
      else (case Split xs sep of [] \<Rightarrow> [[x]] | p # ps \<Rightarrow> (x # p) # ps))"

text \<open>A read of a Go \<^verbatim>\<open>map[string]string\<close>: the empty string for a missing key.\<close>

definition lookup :: "(string \<rightharpoonup> string) \<Rightarrow> string \<Rightarrow> string" where
  "lookup m k = (case m k of None \<Rightarrow> [] | Some v \<Rightarrow> v)"

section \<open>ABAC engine (\<^verbatim>\<open>authorization_service_impl.go\<close>, \<^verbatim>\<open>ABACHandlerImpl\<close>)\<close>

subsection \<open>Data\<close>

type_synonym timestamp = int

record PolicyCondition =
  cond_ID :: nat
  cond_PolicyID :: string
  cond_Type :: string
  cond_Field :: string
  cond_Operator :: string
  cond_Value :: string
  cond_LogicOp :: string

record ABACPolicy =
  pol_ID :: string
  pol_Name :: string
  pol_Description :: string
  pol_Effect :: string
  pol_Priority :: int
  pol_Conditions :: "PolicyCondition list"
  pol_CreatedAt :: timestamp
  pol_UpdatedAt :: timestamp

record PolicyEvaluationContext =
  UserAttributes :: "string \<rightharpoonup> string"
  ObjectAttributes :: "string \<rightharpoonup> string"
  EnvironmentAttributes :: "string \<rightharpoonup> string"
  ActionAttributes :: "string \<rightharpoonup> string"
  ctx_Subject :: string
  ctx_Object :: string
  ctx_Action :: string

text \<open>
  What the engine takes from the Go standard library and the clock, none of it code of this
  repository: \<^verbatim>\<open>strconv.ParseFloat\<close> (\<open>None\<close> for a parse error) with the comparisons
  \<open>>\<close> and \<open><\<close> of \<^verbatim>\<open>float64\<close>, whose values are the type \<open>'f\<close>;
  \<^verbatim>\<open>regexp.MatchString(pattern, s)\<close>, false on an invalid pattern as the source ignores the
  error; \<^verbatim>\<open>strings.TrimSpace\<close>; \<^verbatim>\<open>sort.Slice\<close> on a slice of policies, given the \<^verbatim>\<open>less\<close>
  function; and the clock readings \<^verbatim>\<open>strconv.Itoa(time.Now().Hour())\<close>,
  \<^verbatim>\<open>time.Now().Format("2006-01-02")\<close>, \<^verbatim>\<open>time.Now().Format("Monday")\<close> and \<^verbatim>\<open>time.Now()\<close>.
\<close>

record 'f stdlib =
  ParseFloat :: "string \<Rightarrow> 'f option"
  float_gt :: "'f \<Rightarrow> 'f \<Rightarrow> bool"
  float_lt :: "'f \<Rightarrow> 'f \<Rightarrow> bool"
  MatchString :: "string \<Rightarrow> string \<Rightarrow> bool"
  TrimSpace :: "string \<Rightarrow> string"
  sort_Slice :: "(ABACPolicy \<Rightarrow> ABACPolicy \<Rightarrow> bool) \<Rightarrow> ABACPolicy list \<Rightarrow> ABACPolicy list"
  now_hour :: string
  now_date :: string
  now_day :: string
  time_Now :: timestamp

text \<open>
  The documented contract of \<^verbatim>\<open>sort.Slice\<close>: the result is a rearrangement of the slice in
  which no later element is \<^verbatim>\<open>less\<close> than an earlier one. The documentation adds that the
  sort is not guaranteed to be stable, so nothing is said about elements that compare equal.
\<close>

definition sort_Slice_contract :: "'f stdlib \<Rightarrow> bool" where
  "sort_Slice_contract std \<longleftrightarrow>
     (\<forall>xs. mset (sort_Slice std (\<lambda>a b. pol_Priority a > pol_Priority b) xs) = mset xs \<and>
           sorted_wrt (\<lambda>a b. pol_Priority a \<ge> pol_Priority b)
             (sort_Slice std (\<lambda>a b. pol_Priority a > pol_Priority b) xs))"

subsection \<open>Condition evaluation\<close>

definition compareNumeric :: "'f stdlib \<Rightarrow> string \<Rightarrow> string \<Rightarrow> int" where
  "compareNumeric std actual expected =
     (case (ParseFloat std actual, ParseFloat std expected) of
        (Some actualNum, Some expectedNum) \<Rightarrow>
          if float_gt std actualNum expectedNum then 1
          else if float_lt std actualNum expectedNum then - 1
          else 0
      | _ \<Rightarrow> Compare actual expected)"

fun evaluateIn_loop :: "'f stdlib \<Rightarrow> string \<Rightarrow> string list \<Rightarrow> bool" where
  "evaluateIn_loop std actual [] = False"
| "evaluateIn_loop std actual (v # vs) =
     (if TrimSpace std v = actual then True else evaluateIn_loop std actual vs)"

definition evaluateIn :: "'f stdlib \<Rightarrow> string \<Rightarrow> string \<Rightarrow> bool" where
  "evaluateIn std actual expectedList =
     evaluateIn_loop std actual (Split expectedList CHR '','')"

definition evaluateOperator :: "'f stdlib \<Rightarrow> string \<Rightarrow> string \<Rightarrow> string \<Rightarrow> bool" where
  "evaluateOperator std actual operator expected =
     (if operator = ''eq'' then actual = expected
      else if operator = ''ne'' then actual \<noteq> expected
      else if operator = ''gt'' then compareNumeric std actual expected > 0
      else if operator = ''gte'' then compareNumeric std actual expected \<ge> 0
      else if operator = ''lt'' then compareNumeric std actual expected < 0
      else if operator = ''lte'' then compareNumeric std actual expected \<le> 0
      else if operator = ''in'' then evaluateIn std actual expected
      else if operator = ''contains'' then Contains actual expected
      else if operator = ''startswith'' then HasPrefix actual expected
      else if operator = ''endswith'' then HasSuffix actual expected
      else if operator = ''regex'' then MatchString std expected actual
      else False)"

definition evaluateCondition ::
  "'f stdlib \<Rightarrow> PolicyCondition \<Rightarrow> PolicyEvaluationContext \<Rightarrow> bool" where
  "evaluateCondition std condition ctx =
     (let ty = cond_Type condition; field = cond_Field condition;
          ev = (\<lambda>actualValue.
                  evaluateOperator std actualValue (cond_Operator condition)
                    (cond_Value condition))
      in if ty = ''user'' then ev (lookup (UserAttributes ctx) field)
         else if ty = ''object'' then ev (lookup (ObjectAttributes ctx) field)
         else if ty = ''environment'' then ev (lookup (EnvironmentAttributes ctx) field)
         else if ty = ''action'' then
           (if field = ''action'' then ev (ctx_Action ctx)
            else ev (lookup (ActionAttributes ctx) field))
         else if ty = ''subject'' then
           (if field = ''subject'' then ev (ctx_Subject ctx) else ev [])
         else if ty = ''resource'' then
           (if field = ''object'' then ev (ctx_Object ctx) else ev [])
         else False)"

subsection \<open>Policy evaluation\<close>

text \<open>
  The body of the loop of \<^verbatim>\<open>evaluatePolicy\<close>, from the index \<open>i\<close> on, with the loop's two
  variables \<^verbatim>\<open>result\<close> and \<^verbatim>\<open>currentLogicOp\<close>. Any operator other than \<^verbatim>\<open>"and"\<close> takes the
  \<^verbatim>\<open>else\<close> branch, the disjunction.
\<close>

fun evaluatePolicy_loop ::
  "'f stdlib \<Rightarrow> PolicyEvaluationContext \<Rightarrow> nat \<Rightarrow> bool \<Rightarrow> string \<Rightarrow>
   PolicyCondition list \<Rightarrow> bool" where
  "evaluatePolicy_loop std ctx i result currentLogicOp [] = result"
| "evaluatePolicy_loop std ctx i result currentLogicOp (condition # rest) =
     (let conditionResult = evaluateCondition std condition ctx;
          result' = (if i = 0 then conditionResult
                     else if currentLogicOp = ''and'' then result \<and> conditionResult
                     else result \<or> conditionResult);
          currentLogicOp' = (if cond_LogicOp condition \<noteq> [] then cond_LogicOp condition
                             else currentLogicOp)
      in evaluatePolicy_loop std ctx (Suc i) result' currentLogicOp' rest)"

definition evaluatePolicy :: "'f stdlib \<Rightarrow> ABACPolicy \<Rightarrow> PolicyEvaluationContext \<Rightarrow> bool" where
  "evaluatePolicy std policy ctx =
     (if length (pol_Conditions policy) = 0 then False
      else evaluatePolicy_loop std ctx 0 True ''and'' (pol_Conditions policy))"

text \<open>
  The composition as the specification words it: \<open>result = eval c\<^sub>1\<close> and \<open>op = "and"\<close>;
  then for each further condition \<open>c\<^sub>i\<close>, \<open>op\<close> becomes the \<open>logic_op\<close> of \<open>c\<^sub>i\<^sub>-\<^sub>1\<close> unless that
  is empty, and \<open>result\<close> becomes \<open>result op eval c\<^sub>i\<close>. \<open>spec_fold\<close> is given the previous
  condition, the two variables and the conditions still to come.
\<close>

definition spec_apply :: "string \<Rightarrow> bool \<Rightarrow> bool \<Rightarrow> bool option" where
  "spec_apply op a b =
     (if op = ''and'' then Some (a \<and> b) else if op = ''or'' then Some (a \<or> b) else None)"

fun spec_fold ::
  "(PolicyCondition \<Rightarrow> bool) \<Rightarrow> PolicyCondition \<Rightarrow> bool \<Rightarrow> string \<Rightarrow>
   PolicyCondition list \<Rightarrow> bool option" where
  "spec_fold eval prev result op [] = Some result"
| "spec_fold eval prev result op (c # cs) =
     (let op' = (if cond_LogicOp prev \<noteq> [] then cond_LogicOp prev else op)
      in case spec_apply op' result (eval c) of
           None \<Rightarrow> None
         | Some result' \<Rightarrow> spec_fold eval c result' op' cs)"

definition spec_match :: "(PolicyCondition \<Rightarrow> bool) \<Rightarrow> PolicyCondition list \<Rightarrow> bool option" where
  "spec_match eval cs =
     (case cs of [] \<Rightarrow> Some False | c # rest \<Rightarrow> spec_fold eval c (eval c) ''and'' rest)"

subsection \<open>Enforcement\<close>

record AttributeRepository =
  GetUserAttributes :: "string \<Rightarrow> error + (string \<rightharpoonup> string)"
  GetObjectAttributes :: "string \<Rightarrow> error + (string \<rightharpoonup> string)"

record ABACPolicyRepository =
  repo_AddPolicy :: "ABACPolicy \<Rightarrow> error option"
  repo_RemovePolicy :: "string \<Rightarrow> error option"
  repo_UpdatePolicy :: "ABACPolicy \<Rightarrow> error option"

text \<open>
  The engine: its two repositories and the cache \<^verbatim>\<open>policies\<close>, a Go map from policy id to
  policy. The map is an association list with one entry for each key; a \<^verbatim>\<open>range\<close> over the
  map visits the entries in the order of the list, which stands for whatever order the Go
  runtime picks.
\<close>

record ABACHandlerImpl =
  policyRepo :: ABACPolicyRepository
  attrRepo :: AttributeRepository
  policies :: "(string \<times> ABACPolicy) list"

text \<open>The loop over the sorted policies, with its two early returns.\<close>

fun Enforce_loop :: "'f stdlib \<Rightarrow> PolicyEvaluationContext \<Rightarrow> ABACPolicy list \<Rightarrow> bool" where
  "Enforce_loop std ctx [] = False"
| "Enforce_loop std ctx (policy # rest) =
     (if evaluatePolicy std policy ctx then
        (if pol_Effect policy = ''allow'' then True
         else if pol_Effect policy = ''deny'' then False
         else Enforce_loop std ctx rest)
      else Enforce_loop std ctx rest)"

text \<open>The environment attributes: the clock, overlaid by the request attributes.\<close>

definition envAttrs :: "'f stdlib \<Rightarrow> (string \<rightharpoonup> string) \<Rightarrow> (string \<rightharpoonup> string)" where
  "envAttrs std reqAttrs =
     (let env = [''time'' \<mapsto> now_hour std, ''date'' \<mapsto> now_date std, ''day'' \<mapsto> now_day std]
                  ++ reqAttrs
      in case reqAttrs ''hour'' of None \<Rightarrow> env | Some hourStr \<Rightarrow> env(''time'' \<mapsto> hourStr))"

definition make_ctx ::
  "'f stdlib \<Rightarrow> (string \<rightharpoonup> string) \<Rightarrow> (string \<rightharpoonup> string) \<Rightarrow> string \<Rightarrow> string \<Rightarrow> string \<Rightarrow>
   (string \<rightharpoonup> string) \<Rightarrow> PolicyEvaluationContext" where
  "make_ctx std userAttrs objectAttrs sub obj act reqAttrs =
     \<lparr>UserAttributes = userAttrs, ObjectAttributes = objectAttrs,
      EnvironmentAttributes = envAttrs std reqAttrs, ActionAttributes = Map.empty,
      ctx_Subject = sub, ctx_Object = obj, ctx_Action = act\<rparr>"

text \<open>The slice \<^verbatim>\<open>sortedPolicies\<close> after the call of \<^verbatim>\<open>sort.Slice\<close>.\<close>

definition sortedPolicies :: "'f stdlib \<Rightarrow> ABACHandlerImpl \<Rightarrow> ABACPolicy list" where
  "sortedPolicies std e =
     sort_Slice std (\<lambda>a b. pol_Priority a > pol_Priority b) (map snd (policies e))"

definition ABAC_Enforce ::
  "'f stdlib \<Rightarrow> ABACHandlerImpl \<Rightarrow> string \<Rightarrow> string \<Rightarrow> string \<Rightarrow> (string \<rightharpoonup> string) \<Rightarrow>
   error + bool" where
  "ABAC_Enforce std e sub obj act reqAttrs =
     (case GetUserAttributes (attrRepo e) sub of
        Inl err \<Rightarrow> Inl (Errorf ''failed to get user attributes'' (Some err))
      | Inr userAttrs \<Rightarrow>
          (case GetObjectAttributes (attrRepo e) obj of
             Inl err \<Rightarrow> Inl (Errorf ''failed to get object attributes'' (Some err))
           | Inr objectAttrs \<Rightarrow>
               Inr (Enforce_loop std (make_ctx std userAttrs objectAttrs sub obj act reqAttrs)
                      (sortedPolicies std e))))"

text \<open>The values of \<^verbatim>\<open>logic_op\<close> that \<^verbatim>\<open>ABACPolicy.Validate\<close> lets through.\<close>

definition valid_LogicOp :: "string \<Rightarrow> bool" where
  "valid_LogicOp op \<longleftrightarrow> op = ''and'' \<or> op = ''or'' \<or> op = []"

subsection \<open>Administration\<close>






section \<open>ReBAC engine (\<^verbatim>\<open>rebac_enforcer_impl.go\<close>)\<close>

subsection \<open>Data\<close>

record Relationship =
  rel_Subject :: string
  rel_Relationship :: string
  rel_Object :: string

text \<open>The two writes of the relationship repository; \<open>None\<close> is success.\<close>

record ReBACRepository =
  rebac_AddRelationship :: "string \<Rightarrow> string \<Rightarrow> string \<Rightarrow> error option"
  rebac_RemoveRelationship :: "string \<Rightarrow> string \<Rightarrow> string \<Rightarrow> error option"

text \<open>
  The cache \<^verbatim>\<open>relationships\<close> is a Go map from the key \<^verbatim>\<open>subject:relationship\<close> to a slice of
  relationships, here an association list with one entry for each key; a \<^verbatim>\<open>range\<close> over the
  map visits the entries in the order of the list. \<^verbatim>\<open>permissions\<close> maps a relationship name
  to its permissions.
\<close>

type_synonym relmap = "(string \<times> Relationship list) list"

record ReBACEnforcerImpl =
  rebac_repo :: ReBACRepository
  relationships :: relmap
  permissions :: "(string \<times> string list) list"

text \<open>\<^verbatim>\<open>initializeDefaultPermissions\<close>.\<close>

definition defaultPermissions :: "(string \<times> string list) list" where
  "defaultPermissions =
     [(''owner'', [''read'', ''write'', ''delete'', ''admin'']),
      (''editor'', [''read'', ''write'', ''edit'']),
      (''viewer'', [''read'', ''view'']),
      (''member'', [''inherit'']),
      (''group_access'', [''read'', ''write'']),
      (''parent'', [''inherit'']),
      (''friend'', [''read_limited'']),
      (''manager'', [''read'', ''write'', ''delete'', ''manage''])]"

text \<open>A read \<^verbatim>\<open>e.relationships[key]\<close>: the nil slice for a missing key.\<close>

definition rels_at :: "relmap \<Rightarrow> string \<Rightarrow> Relationship list" where
  "rels_at m key = (case map_of m key of None \<Rightarrow> [] | Some rels \<Rightarrow> rels)"

subsection \<open>Adding and removing relationships\<close>

text \<open>The two appends of \<^verbatim>\<open>AddRelationship\<close>: the edge under its key, the reverse edge under its.\<close>

definition add_to_cache :: "relmap \<Rightarrow> string \<Rightarrow> string \<Rightarrow> string \<Rightarrow> relmap" where
  "add_to_cache m subject relationship object =
     (let key = subject @ '':'' @ relationship;
          m1 = AList.update key
                 (rels_at m key @
                  [\<lparr>rel_Subject = subject, rel_Relationship = relationship,
                    rel_Object = object\<rparr>]) m;
          reverseKey = object @ '':reverse_'' @ relationship
      in AList.update reverseKey
           (rels_at m1 reverseKey @
            [\<lparr>rel_Subject = object, rel_Relationship = ''reverse_'' @ relationship,
              rel_Object = subject\<rparr>]) m1)"

definition AddRelationship ::
  "ReBACEnforcerImpl \<Rightarrow> string \<Rightarrow> string \<Rightarrow> string \<Rightarrow> error option \<times> ReBACEnforcerImpl" where
  "AddRelationship e subject relationship object =
     (case rebac_AddRelationship (rebac_repo e) subject relationship object of
        Some err \<Rightarrow> (Some (Errorf ''failed to save relationship to repository'' (Some err)), e)
      | None \<Rightarrow>
          (None, e\<lparr>relationships :=
                     add_to_cache (relationships e) subject relationship object\<rparr>))"





subsection \<open>Listing and direct relationships\<close>

definition GetRelationships :: "ReBACEnforcerImpl \<Rightarrow> string \<Rightarrow> Relationship list" where
  "GetRelationships e subject =
     (if subject \<noteq> [] then
        concat (map (\<lambda>(key, rels).
          let parts = Split key CHR '':''
          in if length parts = 2 \<and> parts ! 0 = subject \<and> \<not> HasPrefix (parts ! 1) ''reverse_''
             then rels else []) (relationships e))
      else
        concat (map (\<lambda>(key, rels).
          let parts = Split key CHR '':''
          in if length parts = 2 \<and> \<not> HasPrefix (parts ! 1) ''reverse_''
             then rels else []) (relationships e)))"

definition getDirectRelationships ::
  "ReBACEnforcerImpl \<Rightarrow> string \<Rightarrow> string \<Rightarrow> Relationship list" where
  "getDirectRelationships e subject object =
     concat (map (\<lambda>(key, rels).
       let parts = Split key CHR '':''
       in if length parts = 2 \<and> parts ! 0 = subject \<and> \<not> HasPrefix (parts ! 1) ''reverse_''
          then filter (\<lambda>rel. rel_Object rel = object) rels else []) (relationships e))"

subsection \<open>Permissions\<close>

fun perms_loop :: "string \<Rightarrow> string list \<Rightarrow> bool" where
  "perms_loop permission [] = False"
| "perms_loop permission (perm # perms) =
     (if perm = permission \<or> perm = ''admin'' then True else perms_loop permission perms)"

definition hasPermissionThroughRelationship ::
  "ReBACEnforcerImpl \<Rightarrow> string \<Rightarrow> string \<Rightarrow> bool" where
  "hasPermissionThroughRelationship e relationship permission =
     (case map_of (permissions e) relationship of
        None \<Rightarrow> False
      | Some perms \<Rightarrow> perms_loop permission perms)"

definition mapActionToPermission :: "string \<Rightarrow> string" where
  "mapActionToPermission action =
     (if action = ''view'' then ''read''
      else if action = ''edit'' \<or> action = ''update'' \<or> action = ''modify'' then ''write''
      else if action = ''remove'' then ''delete''
      else if action = ''manage'' \<or> action = ''administer'' then ''admin''
      else action)"

subsection \<open>The path finder\<close>

text \<open>
  The two inner iterations of \<^verbatim>\<open>FindRelationshipPath\<close>: over the relationships under one key,
  and over the keys of the map. They produce the entries to append to the queue; the
  \<^verbatim>\<open>visited\<close> they test is fixed while they run.
\<close>

fun expand_rels ::
  "string list \<Rightarrow> string \<Rightarrow> string \<Rightarrow> int \<Rightarrow> Relationship list \<Rightarrow> (string \<times> string \<times> int) list" where
  "expand_rels visited path relationshipType depth [] = []"
| "expand_rels visited path relationshipType depth (rel # rels) =
     (if rel_Object rel \<notin> set visited
      then [(rel_Object rel, path @ '' -['' @ relationshipType @ '']-> '' @ rel_Object rel,
             depth + 1)]
      else []) @ expand_rels visited path relationshipType depth rels"

fun expand_keys ::
  "string list \<Rightarrow> string \<Rightarrow> string \<Rightarrow> int \<Rightarrow> relmap \<Rightarrow> (string \<times> string \<times> int) list" where
  "expand_keys visited node path depth [] = []"
| "expand_keys visited node path depth ((key, rels) # rest) =
     (let parts = Split key CHR '':''
      in if length parts \<noteq> 2 \<or> parts ! 0 \<noteq> node then expand_keys visited node path depth rest
         else if HasPrefix (parts ! 1) ''reverse_'' then expand_keys visited node path depth rest
         else expand_rels visited path (parts ! 1) depth rels @
              expand_keys visited node path depth rest)"

text \<open>The objects of the cached relationships: the nodes the search can ever enqueue.\<close>

definition objects_of :: "relmap \<Rightarrow> string set" where
  "objects_of m = (\<Union>(key, rels) \<in> set m. rel_Object ` set rels)"

text \<open>
  The \<^verbatim>\<open>for len(queue) > 0\<close> loop, on the queue of (node, path, depth) entries and the
  \<^verbatim>\<open>visited\<close> set. Every round either shortens the queue or marks a node visited that
  was not, and only objects of the cache are ever enqueued: the loop terminates.
\<close>

function bfs ::
  "relmap \<Rightarrow> string \<Rightarrow> int \<Rightarrow> string list \<Rightarrow> (string \<times> string \<times> int) list \<Rightarrow> bool \<times> string" where
  "bfs m targetObject maxDepth visited [] = (False, [])"
| "bfs m targetObject maxDepth visited ((node, path, depth) # queue) =
     (if depth > maxDepth then bfs m targetObject maxDepth visited queue
      else if node = targetObject then (True, path)
      else if node \<in> set visited then bfs m targetObject maxDepth visited queue
      else bfs m targetObject maxDepth (node # visited)
             (queue @ expand_keys (node # visited) node path depth m))"
  by pat_completeness auto
termination
proof (relation "measures
    [\<lambda>(m, t, d, visited, queue). card ((objects_of m \<union> fst ` set queue) - set visited),
     \<lambda>(m, t, d, visited, queue). length queue]", goal_cases)
  case 1
  then show ?case by simp
next
  case (2 m t d visited node path depth queue)
  have "card ((objects_of m \<union> fst ` set queue) - set visited)
      \<le> card ((objects_of m \<union> fst ` set ((node, path, depth) # queue)) - set visited)"
    by (rule card_mono) (auto simp: objects_of_def)
  then show ?case by auto
next
  case (3 m t d visited node path depth queue)
  have "card ((objects_of m \<union> fst ` set queue) - set visited)
      \<le> card ((objects_of m \<union> fst ` set ((node, path, depth) # queue)) - set visited)"
    by (rule card_mono) (auto simp: objects_of_def)
  then show ?case by auto
next
  case (4 m t d visited node path depth queue)
  have rels_nodes: "n \<in> rel_Object ` set rels"
    if "(n, p, k) \<in> set (expand_rels vs pth ty dp rels)" for n p k vs pth ty dp rels
    using that by (induction rels) (auto split: if_splits)
  have keys_nodes: "n \<in> objects_of mm"
    if "(n, p, k) \<in> set (expand_keys vs nd pth dp mm)" for n p k vs nd pth dp mm
    using that
  proof (induction mm)
    case Nil
    then show ?case by simp
  next
    case (Cons kv mm)
    obtain key rels where kv: "kv = (key, rels)" by (cases kv)
    from Cons.prems have "(n, p, k) \<in> set (expand_keys vs nd pth dp mm) \<or>
        (\<exists>ty. (n, p, k) \<in> set (expand_rels vs pth ty dp rels))"
      by (auto simp: kv Let_def split: if_splits)
    then show ?case
      using Cons.IH rels_nodes by (auto simp: kv objects_of_def)
  qed
  have "(objects_of m \<union> fst ` set (queue @ expand_keys (node # visited) node path depth m))
          - set (node # visited)
        \<subset> (objects_of m \<union> fst ` set ((node, path, depth) # queue)) - set visited"
    using 4 keys_nodes [of _ _ _ "node # visited" node path depth m] by auto
  then have "card ((objects_of m \<union> fst ` set (queue @ expand_keys (node # visited) node path depth m))
          - set (node # visited))
        < card ((objects_of m \<union> fst ` set ((node, path, depth) # queue)) - set visited)"
    by (intro psubset_card_mono) (auto simp: objects_of_def)
  then show ?case by simp
qed

definition FindRelationshipPath ::
  "ReBACEnforcerImpl \<Rightarrow> string \<Rightarrow> string \<Rightarrow> int \<Rightarrow> bool \<times> string" where
  "FindRelationshipPath e subject targetObject maxDepth0 =
     (let maxDepth = (if maxDepth0 \<le> 0 then 5 else maxDepth0)
      in bfs (relationships e) targetObject maxDepth [] [(subject, subject, 0)])"

subsection \<open>Enforcement\<close>

fun group_loop ::
  "ReBACEnforcerImpl \<Rightarrow> string \<Rightarrow> string \<Rightarrow> string \<Rightarrow> Relationship list \<Rightarrow> bool \<times> string" where
  "group_loop e subject object permission [] = (False, [])"
| "group_loop e subject object permission (groupRel # groups) =
     (let groupName = rel_Object groupRel
      in case find (\<lambda>rel. hasPermissionThroughRelationship e (rel_Relationship rel) permission)
                (getDirectRelationships e groupName object) of
           Some rel \<Rightarrow>
             (True, subject @ '' -[member]-> '' @ groupName @ '' -['' @ rel_Relationship rel @
                    '']-> '' @ object)
         | None \<Rightarrow> group_loop e subject object permission groups)"

definition checkGroupAccess ::
  "ReBACEnforcerImpl \<Rightarrow> string \<Rightarrow> string \<Rightarrow> string \<Rightarrow> bool \<times> string" where
  "checkGroupAccess e subject object permission =
     (case map_of (relationships e) (subject @ '':member'') of
        None \<Rightarrow> (False, [])
      | Some groups \<Rightarrow> group_loop e subject object permission groups)"

text \<open>
  \<^verbatim>\<open>checkHierarchicalAccess\<close> calls \<^verbatim>\<open>Enforce\<close> on each parent of the object. The call is the
  argument \<open>enforce\<close>, a function of the parent object whose value \<open>None\<close> means that the
  call does not return; then the check does not return either. The two iterations are over
  the relationships under one key and over the keys of the map.
\<close>

fun hier_rels ::
  "(string \<Rightarrow> (bool \<times> string) option) \<Rightarrow> string \<Rightarrow> string \<Rightarrow> Relationship list \<Rightarrow>
   (bool \<times> string) option" where
  "hier_rels enforce parentObject object [] = Some (False, [])"
| "hier_rels enforce parentObject object (rel # rels) =
     (if rel_Object rel = object then
        (case enforce parentObject of
           None \<Rightarrow> None
         | Some (hasAccess, parentPath) \<Rightarrow>
             if hasAccess
             then Some (True, parentPath @ '' -> '' @ parentObject @ '' -[parent]-> '' @ object)
             else hier_rels enforce parentObject object rels)
      else hier_rels enforce parentObject object rels)"

fun hier_keys ::
  "(string \<Rightarrow> (bool \<times> string) option) \<Rightarrow> string \<Rightarrow> relmap \<Rightarrow> (bool \<times> string) option" where
  "hier_keys enforce object [] = Some (False, [])"
| "hier_keys enforce object ((key, rels) # rest) =
     (let parts = Split key CHR '':''
      in if length parts \<noteq> 2 \<or> parts ! 1 \<noteq> ''parent'' then hier_keys enforce object rest
         else (case hier_rels enforce (parts ! 0) object rels of
                 None \<Rightarrow> None
               | Some (found, path) \<Rightarrow>
                   if found then Some (True, path) else hier_keys enforce object rest))"

definition checkHierarchicalAccess ::
  "(string \<Rightarrow> (bool \<times> string) option) \<Rightarrow> ReBACEnforcerImpl \<Rightarrow> string \<Rightarrow>
   (bool \<times> string) option" where
  "checkHierarchicalAccess enforce e object = hier_keys enforce object (relationships e)"

definition checkSocialAccess ::
  "ReBACEnforcerImpl \<Rightarrow> string \<Rightarrow> string \<Rightarrow> int \<Rightarrow> bool \<times> string" where
  "checkSocialAccess e subject object maxDepth =
     (case FindRelationshipPath e subject object maxDepth of
        (found, path) \<Rightarrow>
          if found \<and> Contains path ''friend'' then
            (if hasPermissionThroughRelationship e ''friend'' ''read_limited''
             then (True, path) else (False, []))
          else (False, []))"

text \<open>
  \<^verbatim>\<open>Enforce\<close>. It calls itself through \<^verbatim>\<open>checkHierarchicalAccess\<close> with nothing that bounds
  the depth of the calls, so the model carries fuel: the first argument is the number of
  nested calls of \<^verbatim>\<open>Enforce\<close> that may still be entered, and \<open>None\<close> is the result of a call
  that needs more. A call that returns \<open>None\<close> for every amount of fuel is one that never
  returns. The Go result is (allowed, path, nil): the error is always nil.
\<close>

fun ReBAC_Enforce ::
  "nat \<Rightarrow> ReBACEnforcerImpl \<Rightarrow> string \<Rightarrow> string \<Rightarrow> string \<Rightarrow> (bool \<times> string) option" where
  "ReBAC_Enforce 0 e subject object action = None"
| "ReBAC_Enforce (Suc n) e subject object action =
     (let permission = mapActionToPermission action
      in case find (\<lambda>rel. hasPermissionThroughRelationship e (rel_Relationship rel) permission)
                (getDirectRelationships e subject object) of
           Some rel \<Rightarrow>
             Some (True, subject @ '' -['' @ rel_Relationship rel @ '']-> '' @ object)
         | None \<Rightarrow>
             (case checkGroupAccess e subject object permission of
                (True, groupPath) \<Rightarrow> Some (True, groupPath)
              | (False, groupPath) \<Rightarrow>
                  (case checkHierarchicalAccess
                          (\<lambda>parentObject. ReBAC_Enforce n e subject parentObject permission)
                          e object of
                     None \<Rightarrow> None
                   | Some (True, hierarchicalPath) \<Rightarrow> Some (True, hierarchicalPath)
                   | Some (False, hierarchicalPath) \<Rightarrow>
                       if permission = ''read'' \<or> permission = ''read_limited'' then
                         (case checkSocialAccess e subject object 3 of
                            (True, socialPath) \<Rightarrow> Some (True, socialPath)
                          | (False, socialPath) \<Rightarrow> Some (False, []))
                       else Some (False, []))))"

section \<open>Example values\<close>

text \<open>
  A standard library for the examples: no string parses as a number and no pattern
  matches (the examples use neither), \<^verbatim>\<open>TrimSpace\<close> removes ASCII white space, the clock
  stands at noon, and \<^verbatim>\<open>sort.Slice\<close> is the stable insertion sort by descending priority.
\<close>

definition is_space :: "char \<Rightarrow> bool" where
  "is_space c \<longleftrightarrow> c \<in> set [CHR '' '', CHR 0x09, CHR 0x0A, CHR 0x0B, CHR 0x0C, CHR 0x0D]"

definition ascii_TrimSpace :: "string \<Rightarrow> string" where
  "ascii_TrimSpace s = rev (dropWhile is_space (rev (dropWhile is_space s)))"

definition std_stable :: "unit stdlib" where
  "std_stable =
     \<lparr>ParseFloat = (\<lambda>s. None), float_gt = (\<lambda>a b. False), float_lt = (\<lambda>a b. False),
      MatchString = (\<lambda>pattern s. False), TrimSpace = ascii_TrimSpace,
      sort_Slice = (\<lambda>less xs. sort_key (\<lambda>p. - pol_Priority p) xs),
      now_hour = ''12'', now_date = ''2024-01-01'', now_day = ''Monday'', time_Now = 0\<rparr>"

text \<open>The same, but \<^verbatim>\<open>sort.Slice\<close> leaves policies of equal priority in reverse order.\<close>

definition std_ties_reversed :: "unit stdlib" where
  "std_ties_reversed = std_stable\<lparr>sort_Slice := (\<lambda>less xs. rev (sort_key pol_Priority xs))\<rparr>"

definition mk_cond :: "string \<Rightarrow> string \<Rightarrow> string \<Rightarrow> string \<Rightarrow> string \<Rightarrow> PolicyCondition" where
  "mk_cond ty field operator v lop =
     \<lparr>cond_ID = 0, cond_PolicyID = [], cond_Type = ty, cond_Field = field,
      cond_Operator = operator, cond_Value = v, cond_LogicOp = lop\<rparr>"

definition mk_policy :: "string \<Rightarrow> string \<Rightarrow> int \<Rightarrow> PolicyCondition list \<Rightarrow> ABACPolicy" where
  "mk_policy i effect priority conds =
     \<lparr>pol_ID = i, pol_Name = i, pol_Description = [], pol_Effect = effect,
      pol_Priority = priority, pol_Conditions = conds, pol_CreatedAt = 0, pol_UpdatedAt = 0\<rparr>"

text \<open>
  Alice reads a document. \<open>A or B and C\<close> with \<open>A\<close> true and \<open>B\<close>, \<open>C\<close> false: the
  left fold gives \<open>(A or B) and C\<close>, false.
\<close>

definition ctx_alice :: PolicyEvaluationContext where
  "ctx_alice = make_ctx std_stable [''position'' \<mapsto> ''manager''] Map.empty
                 ''alice'' ''doc'' ''read'' Map.empty"

definition policy_fold :: ABACPolicy where
  "policy_fold = mk_policy ''fold'' ''allow'' 1
     [mk_cond ''subject'' ''subject'' ''eq'' ''alice'' ''or'',
      mk_cond ''subject'' ''subject'' ''eq'' ''bob'' ''and'',
      mk_cond ''action'' ''action'' ''eq'' ''write'' ''or'']"

text \<open>
  An RBAC repository: Alice has the role \<open>admin\<close>, and \<open>admin\<close> in turn is given the role
  \<open>root\<close>; \<open>admin\<close> may write \<open>data\<close>, \<open>root\<close> may read \<open>vault\<close>.
\<close>

definition rbac_example :: RBACPolicyRepository where
  "rbac_example =
     \<lparr>rbac_GetPolicy = Inr [[''admin'', ''data'', ''write''], [''root'', ''vault'', ''read'']],
      rbac_GetRolesForUser =
        (\<lambda>u. Inr (if u = ''alice'' then [''admin'']
                    else if u = ''admin'' then [''root''] else []))\<rparr>"

text \<open>
  Alice is a manager in engineering; no object has attributes. The policy repository
  accepts every write.
\<close>

definition attrs_alice :: AttributeRepository where
  "attrs_alice =
     \<lparr>GetUserAttributes =
        (\<lambda>u. Inr (if u = ''alice''
                    then [''position'' \<mapsto> ''manager'', ''department'' \<mapsto> ''engineering'']
                    else Map.empty)),
      GetObjectAttributes = (\<lambda>ob. Inr Map.empty)\<rparr>"

definition repo_ok :: ABACPolicyRepository where
  "repo_ok = \<lparr>repo_AddPolicy = (\<lambda>p. None), repo_RemovePolicy = (\<lambda>i. None),
              repo_UpdatePolicy = (\<lambda>p. None)\<rparr>"

text \<open>
  Scenario S3 of the specification: \<open>P1\<close> allows managers at priority 100, \<open>P2\<close> denies
  engineering at priority 50. The cache lists \<open>P2\<close> first.
\<close>

definition P1 :: ABACPolicy where
  "P1 = mk_policy ''P1'' ''allow'' 100 [mk_cond ''user'' ''position'' ''eq'' ''manager'' []]"

definition P2 :: ABACPolicy where
  "P2 = mk_policy ''P2'' ''deny'' 50 [mk_cond ''user'' ''department'' ''eq'' ''engineering'' []]"

definition engine_S3 :: ABACHandlerImpl where
  "engine_S3 = \<lparr>policyRepo = repo_ok, attrRepo = attrs_alice,
                 policies = [(''P2'', P2), (''P1'', P1)]\<rparr>"

text \<open>Two policies of equal priority that both match Alice, one allowing, one denying.\<close>

definition PA :: ABACPolicy where
  "PA = mk_policy ''PA'' ''allow'' 10 [mk_cond ''subject'' ''subject'' ''eq'' ''alice'' []]"

definition PD :: ABACPolicy where
  "PD = mk_policy ''PD'' ''deny'' 10 [mk_cond ''subject'' ''subject'' ''eq'' ''alice'' []]"

definition engine_tie :: ABACHandlerImpl where
  "engine_tie = \<lparr>policyRepo = repo_ok, attrRepo = attrs_alice,
                  policies = [(''PA'', PA), (''PD'', PD)]\<rparr>"

text \<open>A policy without conditions, at the highest priority.\<close>

definition P0 :: ABACPolicy where
  "P0 = mk_policy ''P0'' ''allow'' 100 []"

definition engine_nomatch :: ABACHandlerImpl where
  "engine_nomatch = \<lparr>policyRepo = repo_ok, attrRepo = attrs_alice,
                  policies = [(''P0'', P0), (''P1'', P1)]\<rparr>"

text \<open>
  ReBAC engines for the examples: the default permissions, a repository that accepts
  every write, and the cache that a sequence of calls of \<^verbatim>\<open>AddRelationship\<close> builds from
  the empty one.
\<close>

definition rebac_repo_ok :: ReBACRepository where
  "rebac_repo_ok = \<lparr>rebac_AddRelationship = (\<lambda>s r ob. None),
                    rebac_RemoveRelationship = (\<lambda>s r ob. None)\<rparr>"

definition rebac_empty :: ReBACEnforcerImpl where
  "rebac_empty = \<lparr>rebac_repo = rebac_repo_ok, relationships = [],
                  permissions = defaultPermissions\<rparr>"

definition add_all ::
  "ReBACEnforcerImpl \<Rightarrow> (string \<times> string \<times> string) list \<Rightarrow> ReBACEnforcerImpl" where
  "add_all e edges = foldl (\<lambda>e (s, r, ob). snd (AddRelationship e s r ob)) e edges"

definition rebac_friend :: ReBACEnforcerImpl where
  "rebac_friend = add_all rebac_empty [(''a'', ''friend'', ''b'')]"

definition rebac_cycle :: ReBACEnforcerImpl where
  "rebac_cycle = add_all rebac_empty [(''a'', ''parent'', ''b''), (''b'', ''parent'', ''a'')]"

definition rebac_colon :: ReBACEnforcerImpl where
  "rebac_colon = add_all rebac_empty [(''a:b'', ''owner'', ''doc'')]"






section \<open>Notions for the properties of the ReBAC engine\<close>

text \<open>
  The test that \<^verbatim>\<open>GetRelationships\<close>, \<^verbatim>\<open>getDirectRelationships\<close> and the path finder apply to
  a key of the cache before they look at its relationships: the key splits at \<open>:\<close> into
  exactly two parts, and the second does not begin with \<^verbatim>\<open>reverse_\<close>.
\<close>

definition forward_key :: "string \<Rightarrow> bool" where
  "forward_key key \<longleftrightarrow>
     length (Split key CHR '':'') = 2 \<and> \<not> HasPrefix (Split key CHR '':'' ! 1) ''reverse_''"

text \<open>
  The shapes of the path strings that \<^verbatim>\<open>Enforce\<close> builds. A chain is the subject followed
  by segments \<^verbatim>\<open> -[rel]-> node\<close>: the direct, the group and the social branch. The
  hierarchical branch takes the path returned for a parent of the object and appends
  \<^verbatim>\<open> -> parent -[parent]-> object\<close>. \<open>render\<close> is the string, \<open>source\<close> and \<open>target\<close> the
  first and the last node, and \<open>linked\<close> says that each parent step starts where the path
  before it ends.
\<close>

datatype explanation =
    Chain string "(string \<times> string) list"
  | Parent explanation string string

fun segments :: "(string \<times> string) list \<Rightarrow> string" where
  "segments [] = []"
| "segments ((relationship, node) # segs) =
     '' -['' @ relationship @ '']-> '' @ node @ segments segs"

fun render :: "explanation \<Rightarrow> string" where
  "render (Chain subject segs) = subject @ segments segs"
| "render (Parent ex parentObject object) =
     render ex @ '' -> '' @ parentObject @ '' -[parent]-> '' @ object"


fun target :: "explanation \<Rightarrow> string" where
  "target (Chain subject segs) = last (subject # map snd segs)"
| "target (Parent ex parentObject object) = object"



text \<open>
  The form the specification gives for a path, for node and relationship names without
  blanks: split at the blanks, the path is the subject, then alternately a word
  \<^verbatim>\<open>-[rel]->\<close> and a node, the last node being the object.
\<close>

definition is_arrow :: "string \<Rightarrow> bool" where
  "is_arrow w \<longleftrightarrow> HasPrefix w ''-['' \<and> HasSuffix w '']->''"

fun alternating :: "string list \<Rightarrow> bool" where
  "alternating [] = False"
| "alternating [node] = True"
| "alternating (node # w # rest) = (is_arrow w \<and> alternating rest)"

definition arrow_form :: "string \<Rightarrow> string \<Rightarrow> string \<Rightarrow> bool" where
  "arrow_form subject object path \<longleftrightarrow>
     (let ws = Split path CHR '' ''
      in hd ws = subject \<and> last ws = object \<and> alternating ws)"

section \<open>Properties of the RBAC engine\<close>

lemma match_policies_iff:
  "match_policies ps sub obj act \<longleftrightarrow> [sub, obj, act] \<in> set ps"
proof (induction ps)
  case Nil
  then show ?case by simp
next
  case (Cons p ps)
  have "length p = 3 \<and> p ! 0 = sub \<and> p ! 1 = obj \<and> p ! 2 = act \<longleftrightarrow> p = [sub, obj, act]"
    by (auto simp: length_Suc_conv numeral_3_eq_3)
  with Cons show ?case by auto
qed

lemma match_roles_iff:
  "match_roles rs ps obj act \<longleftrightarrow> (\<exists>r \<in> set rs. [r, obj, act] \<in> set ps)"
  by (induction rs) (auto simp: match_policies_iff)

text \<open>
  C4. With \<open>P\<close> the policy list and \<open>Roles\<close> the roles the repository reports for \<open>u\<close>,
  \<^verbatim>\<open>Enforce(u, obj, act)\<close> is true exactly when \<open>(u, obj, act)\<close> is a policy or some role of
  \<open>u\<close> has the policy \<open>(r, obj, act)\<close>. Only the roles of \<open>u\<close> itself are looked up: the
  roles of a role play no part.
\<close>

theorem RBAC_Enforce_role_disjunction:
  assumes "rbac_GetPolicy repo = Inr P"
    and "rbac_GetRolesForUser repo u = Inr Roles"
  shows "RBAC_Enforce repo u obj act =
           Inr ([u, obj, act] \<in> set P \<or> (\<exists>r \<in> set Roles. [r, obj, act] \<in> set P))"
  using assms by (simp add: RBAC_Enforce_def match_policies_iff match_roles_iff)

theorem RBAC_Enforce_role_disjunction_witness:
  "rbac_GetPolicy rbac_example =
     Inr [[''admin'', ''data'', ''write''], [''root'', ''vault'', ''read'']] \<and>
   rbac_GetRolesForUser rbac_example ''alice'' = Inr [''admin''] \<and>
   RBAC_Enforce rbac_example ''alice'' ''data'' ''write'' = Inr True \<and>
   RBAC_Enforce rbac_example ''alice'' ''vault'' ''read'' = Inr False"
proof -
  have h1: "rbac_GetPolicy rbac_example =
     Inr [[''admin'', ''data'', ''write''], [''root'', ''vault'', ''read'']]"
    by (simp add: rbac_example_def)
  have h2: "rbac_GetRolesForUser rbac_example ''alice'' = Inr [''admin'']"
    by (simp add: rbac_example_def)
  show ?thesis
    using h1 h2
      RBAC_Enforce_role_disjunction [OF h1 h2, of "''data''" "''write''"]
      RBAC_Enforce_role_disjunction [OF h1 h2, of "''vault''" "''read''"]
    by simp
qed

section \<open>Properties of the dispatcher\<close>

text \<open>
  C5. \<^verbatim>\<open>AuthorizationServiceImpl.Enforce\<close> has no default model: with the empty string as
  model, whatever enforcers are configured, none of them is called and the result is the
  error \<^verbatim>\<open>invalid model specified: \<close>.
\<close>

theorem Service_Enforce_empty_model_rejected:
  "Service_Enforce s [] sub obj act attributes =
     Inl (Errorf ''invalid model specified: '' None)"
  by (simp add: Service_Enforce_def ModelACL_def ModelRBAC_def ModelABAC_def ModelReBAC_def)

lemma AuthService_Enforce_empty_model_is_rbac:
  "AuthService_Enforce s [] sub obj act attributes = casbin_rbac s sub obj act"
  by (simp add: AuthService_Enforce_def ModelACL_def ModelRBAC_def)

section \<open>Properties of ABAC policy evaluation\<close>

lemma evaluateCondition_LogicOp [simp]:
  "evaluateCondition std (c\<lparr>cond_LogicOp := x\<rparr>) ctx = evaluateCondition std c ctx"
  by (simp add: evaluateCondition_def)

text \<open>
  The loop sets its operator after a condition, the specification's fold before the next
  one: at the head of the remaining conditions the two agree once the previous
  condition's operator has been taken up.
\<close>

lemma spec_fold_loop:
  assumes "op = ''and'' \<or> op = ''or''"
    and "cs \<noteq> [] \<longrightarrow> valid_LogicOp (cond_LogicOp prev)"
    and "\<forall>c \<in> set (butlast cs). valid_LogicOp (cond_LogicOp c)"
  shows "spec_fold (\<lambda>c. evaluateCondition std c ctx) prev r op cs =
           Some (evaluatePolicy_loop std ctx (Suc i) r
                   (if cond_LogicOp prev \<noteq> [] then cond_LogicOp prev else op) cs)"
  using assms
proof (induction cs arbitrary: prev r op i)
  case Nil
  then show ?case by simp
next
  case (Cons c cs)
  let ?op' = "if cond_LogicOp prev \<noteq> [] then cond_LogicOp prev else op"
  have op': "?op' = ''and'' \<or> ?op' = ''or''"
    using Cons.prems(1,2) by (auto simp: valid_LogicOp_def)
  have nxt: "cs \<noteq> [] \<longrightarrow> valid_LogicOp (cond_LogicOp c)"
    using Cons.prems(3) by auto
  have rest: "\<forall>c \<in> set (butlast cs). valid_LogicOp (cond_LogicOp c)"
    using Cons.prems(3) by (auto split: if_splits)
  show ?case
    using op' Cons.IH [OF op' nxt rest]
    by (auto simp: spec_apply_def Let_def)
qed

lemma loop_last_LogicOp:
  "evaluatePolicy_loop std ctx i r op (cs @ [c\<lparr>cond_LogicOp := x\<rparr>]) =
   evaluatePolicy_loop std ctx i r op (cs @ [c])"
  by (induction cs arbitrary: i r op) (simp_all add: Let_def)

text \<open>
  C2. For a policy with at least one condition, whose conditions before the last carry
  \<open>and\<close>, \<open>or\<close> or the empty string as \<open>logic_op\<close> (the values of the data model),
  \<^verbatim>\<open>evaluatePolicy\<close> returns what the specification's left-to-right fold computes; and
  putting any \<open>logic_op\<close> whatever on the last condition leaves the result as it was.
\<close>

theorem evaluatePolicy_left_fold:
  assumes "pol_Conditions p \<noteq> []"
    and "\<forall>c \<in> set (butlast (pol_Conditions p)). valid_LogicOp (cond_LogicOp c)"
  shows "spec_match (\<lambda>c. evaluateCondition std c ctx) (pol_Conditions p) =
           Some (evaluatePolicy std p ctx) \<and>
         evaluatePolicy std
           (p\<lparr>pol_Conditions :=
                butlast (pol_Conditions p) @ [(last (pol_Conditions p))\<lparr>cond_LogicOp := x\<rparr>]\<rparr>) ctx =
           evaluatePolicy std p ctx"
proof
  obtain c rest where cs: "pol_Conditions p = c # rest"
    using assms(1) by (cases "pol_Conditions p") auto
  have a: "rest \<noteq> [] \<longrightarrow> valid_LogicOp (cond_LogicOp c)"
    using assms(2) cs by auto
  have b: "\<forall>c \<in> set (butlast rest). valid_LogicOp (cond_LogicOp c)"
    using assms(2) cs by (auto split: if_splits)
  show "spec_match (\<lambda>c. evaluateCondition std c ctx) (pol_Conditions p) =
           Some (evaluatePolicy std p ctx)"
    using spec_fold_loop [where op = "''and''" and i = 0 and std = std and ctx = ctx
        and r = "evaluateCondition std c ctx", OF _ a b]
    by (simp add: spec_match_def evaluatePolicy_def cs Let_def)
next
  have bl: "butlast (pol_Conditions p) @ [last (pol_Conditions p)] = pol_Conditions p"
    using assms(1) by simp
  have "evaluatePolicy_loop std ctx 0 True ''and''
           (butlast (pol_Conditions p) @ [(last (pol_Conditions p))\<lparr>cond_LogicOp := x\<rparr>]) =
        evaluatePolicy_loop std ctx 0 True ''and''
           (butlast (pol_Conditions p) @ [last (pol_Conditions p)])"
    by (rule loop_last_LogicOp)
  then have "evaluatePolicy_loop std ctx 0 True ''and''
           (butlast (pol_Conditions p) @ [(last (pol_Conditions p))\<lparr>cond_LogicOp := x\<rparr>]) =
        evaluatePolicy_loop std ctx 0 True ''and'' (pol_Conditions p)"
    by (simp only: bl)
  then show "evaluatePolicy std
           (p\<lparr>pol_Conditions :=
                butlast (pol_Conditions p) @ [(last (pol_Conditions p))\<lparr>cond_LogicOp := x\<rparr>]\<rparr>) ctx =
           evaluatePolicy std p ctx"
    using assms(1) by (simp add: evaluatePolicy_def)
qed

lemma policy_fold_value: "evaluatePolicy std_stable policy_fold ctx_alice = False"
  by (simp add: evaluatePolicy_def policy_fold_def mk_policy_def mk_cond_def ctx_alice_def
      make_ctx_def evaluateCondition_def evaluateOperator_def Let_def)

theorem evaluatePolicy_left_fold_witness:
  "pol_Conditions policy_fold \<noteq> [] \<and>
   list_all (\<lambda>c. valid_LogicOp (cond_LogicOp c)) (butlast (pol_Conditions policy_fold)) \<and>
   spec_match (\<lambda>c. evaluateCondition std_stable c ctx_alice) (pol_Conditions policy_fold) =
     Some False \<and>
   evaluatePolicy std_stable
     (policy_fold\<lparr>pol_Conditions :=
        butlast (pol_Conditions policy_fold) @
        [(last (pol_Conditions policy_fold))\<lparr>cond_LogicOp := ''and''\<rparr>]\<rparr>) ctx_alice = False"
proof -
  have h1: "pol_Conditions policy_fold \<noteq> []"
    by (simp add: policy_fold_def mk_policy_def)
  have h2: "\<forall>c \<in> set (butlast (pol_Conditions policy_fold)). valid_LogicOp (cond_LogicOp c)"
    by (simp add: policy_fold_def mk_policy_def mk_cond_def valid_LogicOp_def)
  show ?thesis
    using h1 h2 policy_fold_value
      evaluatePolicy_left_fold [OF h1 h2, of std_stable ctx_alice "''and''"]
    by (simp add: list_all_iff)
qed

section \<open>Properties of ABAC enforcement\<close>

lemma Enforce_loop_no_match:
  "\<forall>p \<in> set ps. \<not> evaluatePolicy std p ctx \<Longrightarrow> Enforce_loop std ctx ps = False"
  by (induction ps) auto

lemma Enforce_loop_first_match:
  assumes "\<forall>q \<in> set pre. \<not> evaluatePolicy std q ctx" and "evaluatePolicy std p ctx"
  shows "Enforce_loop std ctx (pre @ p # post) =
           (if pol_Effect p = ''allow'' then True
            else if pol_Effect p = ''deny'' then False
            else Enforce_loop std ctx post)"
  using assms by (induction pre) auto

lemma sortedPolicies_mset:
  "sort_Slice_contract std \<Longrightarrow> mset (sortedPolicies std e) = mset (map snd (policies e))"
  by (simp add: sort_Slice_contract_def sortedPolicies_def)

lemma sortedPolicies_sorted:
  "sort_Slice_contract std \<Longrightarrow>
   sorted_wrt (\<lambda>a b. pol_Priority a \<ge> pol_Priority b) (sortedPolicies std e)"
  by (simp add: sort_Slice_contract_def sortedPolicies_def)

lemma sortedPolicies_set:
  "sort_Slice_contract std \<Longrightarrow> set (sortedPolicies std e) = set (map snd (policies e))"
  using sortedPolicies_mset [of std e] by (metis set_mset_mset)

lemma ABAC_Enforce_ok:
  assumes "GetUserAttributes (attrRepo e) sub = Inr ua"
    and "GetObjectAttributes (attrRepo e) obj = Inr oa"
  shows "ABAC_Enforce std e sub obj act req =
           Inr (Enforce_loop std (make_ctx std ua oa sub obj act req) (sortedPolicies std e))"
  using assms by (simp add: ABAC_Enforce_def)

text \<open>
  C1, as the code has it. Whatever \<^verbatim>\<open>sort.Slice\<close> does within its contract, and with the
  attribute reads succeeding, \<^verbatim>\<open>Enforce\<close> walks the cached policies in an order that is a
  rearrangement of the cache, descending by priority; and when \<open>p\<close> is the first policy of
  that order that matches, the result is true if the effect of \<open>p\<close> is \<open>allow\<close> and false if
  it is \<open>deny\<close>, whatever comes after \<open>p\<close>. Nothing fixes the order of policies of equal
  priority.
\<close>

theorem ABAC_Enforce_priority_order:
  assumes "sort_Slice_contract std"
    and "GetUserAttributes (attrRepo e) sub = Inr ua"
    and "GetObjectAttributes (attrRepo e) obj = Inr oa"
  shows "mset (sortedPolicies std e) = mset (map snd (policies e)) \<and>
         sorted_wrt (\<lambda>a b. pol_Priority a \<ge> pol_Priority b) (sortedPolicies std e) \<and>
         (\<forall>pre p post.
            sortedPolicies std e = pre @ p # post \<and>
            (\<forall>q \<in> set pre. \<not> evaluatePolicy std q (make_ctx std ua oa sub obj act req)) \<and>
            evaluatePolicy std p (make_ctx std ua oa sub obj act req) \<longrightarrow>
            (pol_Effect p = ''allow'' \<longrightarrow> ABAC_Enforce std e sub obj act req = Inr True) \<and>
            (pol_Effect p = ''deny'' \<longrightarrow> ABAC_Enforce std e sub obj act req = Inr False))"
proof (intro conjI allI impI)
  show "mset (sortedPolicies std e) = mset (map snd (policies e))"
    using assms(1) by (rule sortedPolicies_mset)
  show "sorted_wrt (\<lambda>a b. pol_Priority a \<ge> pol_Priority b) (sortedPolicies std e)"
    using assms(1) by (rule sortedPolicies_sorted)
next
  fix pre p post
  assume h: "sortedPolicies std e = pre @ p # post \<and>
            (\<forall>q \<in> set pre. \<not> evaluatePolicy std q (make_ctx std ua oa sub obj act req)) \<and>
            evaluatePolicy std p (make_ctx std ua oa sub obj act req)"
  assume "pol_Effect p = ''allow''"
  then show "ABAC_Enforce std e sub obj act req = Inr True"
    using h Enforce_loop_first_match [of pre std _ p post]
    by (simp add: ABAC_Enforce_ok [OF assms(2,3)])
next
  fix pre p post
  assume h: "sortedPolicies std e = pre @ p # post \<and>
            (\<forall>q \<in> set pre. \<not> evaluatePolicy std q (make_ctx std ua oa sub obj act req)) \<and>
            evaluatePolicy std p (make_ctx std ua oa sub obj act req)"
  assume "pol_Effect p = ''deny''"
  then show "ABAC_Enforce std e sub obj act req = Inr False"
    using h Enforce_loop_first_match [of pre std _ p post]
    by (simp add: ABAC_Enforce_ok [OF assms(2,3)])
qed

lemma std_stable_contract: "sort_Slice_contract std_stable"
  unfolding sort_Slice_contract_def std_stable_def
proof (intro allI conjI)
  fix xs :: "ABACPolicy list"
  show "mset (sort_Slice \<lparr>ParseFloat = (\<lambda>s. None), float_gt = (\<lambda>a b. False), float_lt = (\<lambda>a b. False),
      MatchString = (\<lambda>pattern s. False), TrimSpace = ascii_TrimSpace,
      sort_Slice = (\<lambda>less xs. sort_key (\<lambda>p. - pol_Priority p) xs),
      now_hour = ''12'', now_date = ''2024-01-01'', now_day = ''Monday'', time_Now = 0\<rparr> (\<lambda>a b. pol_Priority a > pol_Priority b) xs) = mset xs"
    by simp
  have "sorted (map (\<lambda>p. - pol_Priority p) (sort_key (\<lambda>p. - pol_Priority p) xs))"
    by (rule sorted_sort_key)
  then have "sorted_wrt (\<lambda>a b. pol_Priority a \<ge> pol_Priority b) (sort_key (\<lambda>p. - pol_Priority p) xs)"
    by (simp add: sorted_map)
  then show "sorted_wrt (\<lambda>a b. pol_Priority a \<ge> pol_Priority b) (sort_Slice \<lparr>ParseFloat = (\<lambda>s. None), float_gt = (\<lambda>a b. False), float_lt = (\<lambda>a b. False),
      MatchString = (\<lambda>pattern s. False), TrimSpace = ascii_TrimSpace,
      sort_Slice = (\<lambda>less xs. sort_key (\<lambda>p. - pol_Priority p) xs),
      now_hour = ''12'', now_date = ''2024-01-01'', now_day = ''Monday'', time_Now = 0\<rparr> (\<lambda>a b. pol_Priority a > pol_Priority b) xs)"
    by simp
qed

lemma std_ties_reversed_contract: "sort_Slice_contract std_ties_reversed"
proof -
  have "sorted_wrt (\<lambda>a b. pol_Priority a \<ge> pol_Priority b) (rev (sort_key pol_Priority xs))" for xs :: "ABACPolicy list"
  proof -
    have "sorted (map pol_Priority (sort_key pol_Priority xs))" by (rule sorted_sort_key)
    then show ?thesis by (simp add: sorted_map sorted_wrt_rev)
  qed
  then show ?thesis
    by (simp add: sort_Slice_contract_def std_ties_reversed_def std_stable_def)
qed

lemma sorted_S3: "sortedPolicies std_stable engine_S3 = [P1, P2]"
  by (simp add: sortedPolicies_def std_stable_def engine_S3_def P1_def P2_def mk_policy_def)

lemma sorted_tie_rev: "sortedPolicies std_ties_reversed engine_tie = [PD, PA]"
  by (simp add: sortedPolicies_def std_ties_reversed_def std_stable_def engine_tie_def PA_def PD_def mk_policy_def)

lemma sorted_tie_stable: "sort_key (\<lambda>p. - pol_Priority p) (map snd (policies engine_tie)) = [PA, PD]"
  by (simp add: engine_tie_def PA_def PD_def mk_policy_def)

lemma PA_ne_PD: "PA \<noteq> PD"
  by (simp add: PA_def PD_def mk_policy_def)

lemma ua_alice: "GetUserAttributes attrs_alice ''alice'' =
    Inr [''position'' \<mapsto> ''manager'', ''department'' \<mapsto> ''engineering'']"
  by (simp add: attrs_alice_def)

lemma oa_doc: "GetObjectAttributes attrs_alice ''doc'' = Inr Map.empty"
  by (simp add: attrs_alice_def)

lemma attrRepo_tie: "attrRepo engine_tie = attrs_alice"
  by (simp add: engine_tie_def)

lemma matches_alice:
  "evaluatePolicy std (mk_policy i eff pr [mk_cond ''subject'' ''subject'' ''eq'' ''alice'' []])
     (make_ctx std' ua oa ''alice'' obj act req)"
  by (simp add: mk_policy_def mk_cond_def evaluatePolicy_def evaluateCondition_def
      evaluateOperator_def make_ctx_def Let_def)

lemma eval_tie: "ABAC_Enforce std_ties_reversed engine_tie ''alice'' ''doc'' ''read'' Map.empty = Inr False"
proof -
  have "ABAC_Enforce std_ties_reversed engine_tie ''alice'' ''doc'' ''read'' Map.empty =
     Inr (Enforce_loop std_ties_reversed
            (make_ctx std_ties_reversed [''position'' \<mapsto> ''manager'', ''department'' \<mapsto> ''engineering'']
               Map.empty ''alice'' ''doc'' ''read'' Map.empty) [PD, PA])"
    using ABAC_Enforce_ok [of engine_tie "''alice''" _ "''doc''" _ std_ties_reversed]
    by (simp add: attrRepo_tie ua_alice oa_doc sorted_tie_rev)
  moreover have "evaluatePolicy std_ties_reversed PD
            (make_ctx std_ties_reversed [''position'' \<mapsto> ''manager'', ''department'' \<mapsto> ''engineering'']
               Map.empty ''alice'' ''doc'' ''read'' Map.empty)"
    unfolding PD_def by (rule matches_alice)
  moreover have "pol_Effect PD = ''deny''" by (simp add: PD_def mk_policy_def)
  ultimately show ?thesis by simp
qed

lemma stable_tie: "Enforce_loop std_ties_reversed
            (make_ctx std_ties_reversed [''position'' \<mapsto> ''manager'', ''department'' \<mapsto> ''engineering'']
               Map.empty ''alice'' ''doc'' ''read'' Map.empty)
            (sort_key (\<lambda>p. - pol_Priority p) (map snd (policies engine_tie))) = True"
proof -
  have "evaluatePolicy std_ties_reversed PA
            (make_ctx std_ties_reversed [''position'' \<mapsto> ''manager'', ''department'' \<mapsto> ''engineering'']
               Map.empty ''alice'' ''doc'' ''read'' Map.empty)"
    unfolding PA_def by (rule matches_alice)
  moreover have "pol_Effect PA = ''allow''" by (simp add: PA_def mk_policy_def)
  ultimately show ?thesis by (simp add: sorted_tie_stable)
qed


text \<open>
  C1 as stated asks for ties to be broken stably. Two policies of priority 10, both
  matching, the first of the snapshot allowing and the second denying: a stable sort keeps
  the allowing one in front and the decision would be true, but \<^verbatim>\<open>sort.Slice\<close> is free to
  put the denying one first, and then \<^verbatim>\<open>Enforce\<close> returns false.
\<close>

theorem ABAC_Enforce_stable_ties_counterexample:
  "sort_Slice_contract std_ties_reversed \<and>
   pol_Priority PA = pol_Priority PD \<and>
   sort_key (\<lambda>p. - pol_Priority p) (map snd (policies engine_tie)) = [PA, PD] \<and>
   sortedPolicies std_ties_reversed engine_tie = [PD, PA] \<and> PA \<noteq> PD \<and>
   ABAC_Enforce std_ties_reversed engine_tie ''alice'' ''doc'' ''read'' Map.empty = Inr False \<and>
   Enforce_loop std_ties_reversed
     (make_ctx std_ties_reversed [''position'' \<mapsto> ''manager'', ''department'' \<mapsto> ''engineering'']
        Map.empty ''alice'' ''doc'' ''read'' Map.empty)
     (sort_key (\<lambda>p. - pol_Priority p) (map snd (policies engine_tie))) = True"
  using std_ties_reversed_contract sorted_tie_stable sorted_tie_rev PA_ne_PD eval_tie stable_tie
  by (simp add: PA_def PD_def mk_policy_def)

theorem ABAC_Enforce_priority_order_witness:
  "sort_Slice_contract std_stable \<and>
   GetUserAttributes (attrRepo engine_S3) ''alice'' =
     Inr [''position'' \<mapsto> ''manager'', ''department'' \<mapsto> ''engineering''] \<and>
   GetObjectAttributes (attrRepo engine_S3) ''doc'' = Inr Map.empty \<and>
   map snd (policies engine_S3) = [P2, P1] \<and>
   sortedPolicies std_stable engine_S3 = [P1, P2] \<and>
   pol_Effect P1 = ''allow'' \<and>
   ABAC_Enforce std_stable engine_S3 ''alice'' ''doc'' ''read'' Map.empty = Inr True"
proof -
  have ua: "GetUserAttributes (attrRepo engine_S3) ''alice'' =
     Inr [''position'' \<mapsto> ''manager'', ''department'' \<mapsto> ''engineering'']"
    by (simp add: engine_S3_def ua_alice)
  have oa: "GetObjectAttributes (attrRepo engine_S3) ''doc'' = Inr Map.empty"
    by (simp add: engine_S3_def oa_doc)
  have m: "evaluatePolicy std_stable P1
     (make_ctx std_stable [''position'' \<mapsto> ''manager'', ''department'' \<mapsto> ''engineering'']
        Map.empty ''alice'' ''doc'' ''read'' Map.empty)"
    by (simp add: P1_def mk_policy_def mk_cond_def evaluatePolicy_def evaluateCondition_def
        evaluateOperator_def make_ctx_def lookup_def Let_def)
  have eff: "pol_Effect P1 = ''allow''"
    by (simp add: P1_def mk_policy_def)
  have s: "sortedPolicies std_stable engine_S3 = [] @ P1 # [P2]"
    by (simp add: sorted_S3)
  have "ABAC_Enforce std_stable engine_S3 ''alice'' ''doc'' ''read'' Map.empty = Inr True"
    using ABAC_Enforce_priority_order [OF std_stable_contract ua oa, of "''read''" Map.empty]
      s m eff by (metis empty_iff empty_set)
  then show ?thesis
    using std_stable_contract ua oa eff sorted_S3 by (simp add: engine_S3_def)
qed

lemma evaluatePolicy_no_conditions:
  "pol_Conditions p = [] \<Longrightarrow> \<not> evaluatePolicy std p ctx"
  by (simp add: evaluatePolicy_def)

text \<open>
  C6. With the attribute reads succeeding: if the cache is empty, or no cached policy
  matches the evaluation context, \<^verbatim>\<open>Enforce\<close> returns false. And a policy without conditions
  matches no context, so it neither grants nor denies. (When an attribute read fails,
  \<^verbatim>\<open>Enforce\<close> returns false together with the error, here \<open>Inl\<close>.)
\<close>

theorem ABAC_Enforce_default_deny:
  assumes "sort_Slice_contract std"
    and "GetUserAttributes (attrRepo e) sub = Inr ua"
    and "GetObjectAttributes (attrRepo e) obj = Inr oa"
  shows "(policies e = [] \<or>
          (\<forall>p \<in> set (map snd (policies e)).
             \<not> evaluatePolicy std p (make_ctx std ua oa sub obj act req)) \<longrightarrow>
          ABAC_Enforce std e sub obj act req = Inr False) \<and>
         (pol_Conditions p = [] \<longrightarrow> \<not> evaluatePolicy std p ctx)"
proof (intro conjI impI)
  assume "policies e = [] \<or>
          (\<forall>p \<in> set (map snd (policies e)).
             \<not> evaluatePolicy std p (make_ctx std ua oa sub obj act req))"
  then have "\<forall>p \<in> set (map snd (policies e)).
             \<not> evaluatePolicy std p (make_ctx std ua oa sub obj act req)"
    by auto
  then have "\<forall>p \<in> set (sortedPolicies std e).
             \<not> evaluatePolicy std p (make_ctx std ua oa sub obj act req)"
    by (simp only: sortedPolicies_set [OF assms(1)])
  then show "ABAC_Enforce std e sub obj act req = Inr False"
    by (simp add: ABAC_Enforce_ok [OF assms(2,3)] Enforce_loop_no_match)
next
  assume "pol_Conditions p = []"
  then show "\<not> evaluatePolicy std p ctx"
    by (rule evaluatePolicy_no_conditions)
qed

theorem ABAC_Enforce_default_deny_witness:
  "sort_Slice_contract std_stable \<and>
   GetUserAttributes (attrRepo engine_nomatch) ''bob'' = Inr Map.empty \<and>
   GetObjectAttributes (attrRepo engine_nomatch) ''doc'' = Inr Map.empty \<and>
   list_all (\<lambda>p. \<not> evaluatePolicy std_stable p
          (make_ctx std_stable Map.empty Map.empty ''bob'' ''doc'' ''read'' Map.empty))
     (map snd (policies engine_nomatch)) \<and>
   ABAC_Enforce std_stable engine_nomatch ''bob'' ''doc'' ''read'' Map.empty = Inr False \<and>
   pol_Conditions P0 = [] \<and> pol_Effect P0 = ''allow'' \<and>
   \<not> evaluatePolicy std_stable P0
       (make_ctx std_stable Map.empty Map.empty ''bob'' ''doc'' ''read'' Map.empty)"
proof -
  have ua: "GetUserAttributes (attrRepo engine_nomatch) ''bob'' = Inr Map.empty"
    by (simp add: engine_nomatch_def attrs_alice_def)
  have oa: "GetObjectAttributes (attrRepo engine_nomatch) ''doc'' = Inr Map.empty"
    by (simp add: engine_nomatch_def attrs_alice_def)
  have c0: "pol_Conditions P0 = []" and e0: "pol_Effect P0 = ''allow''"
    by (simp_all add: P0_def mk_policy_def)
  have n1: "\<not> evaluatePolicy std_stable P1
          (make_ctx std_stable Map.empty Map.empty ''bob'' ''doc'' ''read'' Map.empty)"
    by (simp add: P1_def mk_policy_def mk_cond_def evaluatePolicy_def evaluateCondition_def
        evaluateOperator_def make_ctx_def lookup_def Let_def)
  have n0: "\<not> evaluatePolicy std_stable P0
          (make_ctx std_stable Map.empty Map.empty ''bob'' ''doc'' ''read'' Map.empty)"
    using ABAC_Enforce_default_deny [OF std_stable_contract ua oa, of "''read''" Map.empty P0] c0
    by simp
  have nm: "\<forall>p \<in> set (map snd (policies engine_nomatch)).
      \<not> evaluatePolicy std_stable p
          (make_ctx std_stable Map.empty Map.empty ''bob'' ''doc'' ''read'' Map.empty)"
    using n0 n1 by (simp add: engine_nomatch_def)
  have "ABAC_Enforce std_stable engine_nomatch ''bob'' ''doc'' ''read'' Map.empty = Inr False"
    using ABAC_Enforce_default_deny [OF std_stable_contract ua oa, of "''read''" Map.empty P0] nm
    by blast
  then show ?thesis
    using std_stable_contract ua oa c0 e0 n0 nm by (simp add: list_all_iff)
qed

section \<open>Properties of the ReBAC engine\<close>

lemma rebac_friend_cache:
  "relationships rebac_friend =
     [(''a:friend'', [\<lparr>rel_Subject = ''a'', rel_Relationship = ''friend'', rel_Object = ''b''\<rparr>]),
      (''b:reverse_friend'',
       [\<lparr>rel_Subject = ''b'', rel_Relationship = ''reverse_friend'', rel_Object = ''a''\<rparr>])]"
  by (simp add: rebac_friend_def add_all_def AddRelationship_def rebac_empty_def rebac_repo_ok_def
      add_to_cache_def rels_at_def Let_def)

lemma rebac_friend_path:
  "FindRelationshipPath rebac_friend ''a'' ''b'' 0 = (True, ''a -[friend]-> b'')"
  by (simp add: FindRelationshipPath_def rebac_friend_cache Let_def)

text \<open>
  C8, as the code has it. \<^verbatim>\<open>FindRelationshipPath\<close> replaces a \<^verbatim>\<open>maxDepth\<close> of zero by
  five, so the call with depth zero is the call with depth five; it returns true with the
  path \<open>s\<close> when the subject is the target.
\<close>

theorem FindRelationshipPath_zero_depth:
  "FindRelationshipPath e s t 0 = FindRelationshipPath e s t 5 \<and>
   (s = t \<longrightarrow> FindRelationshipPath e s t 0 = (True, s))"
  by (simp add: FindRelationshipPath_def)

theorem FindRelationshipPath_zero_depth_witness:
  "FindRelationshipPath rebac_friend ''a'' ''a'' 0 = FindRelationshipPath rebac_friend ''a'' ''a'' 5 \<and>
   FindRelationshipPath rebac_friend ''a'' ''a'' 0 = (True, ''a'')"
  using FindRelationshipPath_zero_depth [of rebac_friend "''a''" "''a''"] by blast

text \<open>
  C8 as stated fails: with the single edge from \<open>a\<close> to \<open>b\<close>, the call with depth zero
  follows the edge and returns true although \<open>a\<close> is not \<open>b\<close>.
\<close>

theorem FindRelationshipPath_zero_depth_counterexample:
  "FindRelationshipPath rebac_friend ''a'' ''b'' 0 = (True, ''a -[friend]-> b'') \<and>
   \<not> (fst (FindRelationshipPath rebac_friend ''a'' ''b'' 0) \<longleftrightarrow> ''a'' = ''b'')"
  by (simp add: rebac_friend_path)

lemma rebac_cycle_cache:
  "relationships rebac_cycle =
     [(''a:parent'', [\<lparr>rel_Subject = ''a'', rel_Relationship = ''parent'', rel_Object = ''b''\<rparr>]),
      (''b:reverse_parent'',
       [\<lparr>rel_Subject = ''b'', rel_Relationship = ''reverse_parent'', rel_Object = ''a''\<rparr>]),
      (''b:parent'', [\<lparr>rel_Subject = ''b'', rel_Relationship = ''parent'', rel_Object = ''a''\<rparr>]),
      (''a:reverse_parent'',
       [\<lparr>rel_Subject = ''a'', rel_Relationship = ''reverse_parent'', rel_Object = ''b''\<rparr>])]"
  by (simp add: rebac_cycle_def add_all_def AddRelationship_def rebac_empty_def rebac_repo_ok_def
      add_to_cache_def rels_at_def Let_def)

text \<open>
  C3 fails on the code. With \<open>a\<close> parent of \<open>b\<close> and \<open>b\<close> parent of \<open>a\<close>, the call
  \<^verbatim>\<open>Enforce("s", "a", "read")\<close> finds no direct and no group access, asks for the parent
  \<open>b\<close> of \<open>a\<close>, there for the parent \<open>a\<close> of \<open>b\<close>, and so on: whatever the fuel, the
  call does not return.
\<close>

theorem ReBAC_Enforce_parent_cycle_never_returns:
  "ReBAC_Enforce n rebac_cycle ''s'' ''a'' ''read'' = None"
proof -
  have "ReBAC_Enforce n rebac_cycle ''s'' ''a'' ''read'' = None \<and>
        ReBAC_Enforce n rebac_cycle ''s'' ''b'' ''read'' = None"
  proof (induction n)
    case 0
    then show ?case by simp
  next
    case (Suc n)
    then show ?case
      by (simp add: rebac_cycle_cache getDirectRelationships_def checkGroupAccess_def
          checkHierarchicalAccess_def mapActionToPermission_def Let_def)
  qed
  then show ?thesis by simp
qed

section \<open>Repository failures\<close>





section \<open>Keys with a colon in the subject\<close>

lemma Split_not_Nil [simp]: "Split xs sep \<noteq> []"
  by (induction xs) (auto split: list.splits)

lemma length_Split_pos: "1 \<le> length (Split xs sep)"
  by (cases "Split xs sep") simp_all

lemma Split_append: "Split (xs @ sep # ys) sep = Split xs sep @ Split ys sep"
  by (induction xs) (auto split: list.splits)

lemma Split_no_sep: "sep \<notin> set xs \<Longrightarrow> Split xs sep = [xs]"
  by (induction xs) auto

lemma length_Split_sep: "sep \<in> set xs \<Longrightarrow> 2 \<le> length (Split xs sep)"
proof -
  assume "sep \<in> set xs"
  then obtain ys zs where "xs = ys @ sep # zs"
    by (auto simp: in_set_conv_decomp)
  moreover have "1 \<le> length (Split ys sep)" "1 \<le> length (Split zs sep)"
    by (rule length_Split_pos)+
  ultimately show ?thesis by (simp add: Split_append)
qed

lemma Split_single: "length (Split xs sep) = 1 \<Longrightarrow> Split xs sep = [xs]"
  using length_Split_sep [of sep xs] Split_no_sep [of sep xs] by fastforce

lemma HasPrefix_append [simp]: "HasPrefix (p @ s) p"
  by (induction p) auto

lemma HasPrefix_iff_prefix: "HasPrefix s p \<longleftrightarrow> prefix p s"
  by (induction s p rule: HasPrefix.induct) auto

lemma colon_key_not_forward:
  assumes "CHR '':'' \<in> set subject"
  shows "\<not> forward_key (subject @ '':'' @ relationship)"
proof -
  have "length (Split (subject @ '':'' @ relationship) CHR '':'') =
        length (Split subject CHR '':'') + length (Split relationship CHR '':'')"
    by (simp add: Split_append)
  moreover have "2 \<le> length (Split subject CHR '':'')"
    using assms by (rule length_Split_sep)
  moreover have "1 \<le> length (Split relationship CHR '':'')"
    by (rule length_Split_pos)
  ultimately show ?thesis by (simp add: forward_key_def)
qed

lemma two_parts_second:
  assumes "length (Split (a @ sep # b) sep) = 2"
  shows "Split (a @ sep # b) sep ! 1 = b"
proof -
  have "1 \<le> length (Split a sep)" "1 \<le> length (Split b sep)"
    by (rule length_Split_pos)+
  moreover have "length (Split a sep) + length (Split b sep) = 2"
    using assms by (simp add: Split_append)
  ultimately have la: "length (Split a sep) = 1" and lb: "length (Split b sep) = 1"
    by auto
  have "Split b sep = [b]"
    using lb by (rule Split_single)
  then show ?thesis
    using la by (simp add: Split_append nth_append)
qed

lemma reverse_key_not_forward:
  "\<not> forward_key (object @ '':reverse_'' @ relationship)"
proof
  define b where "b = ''reverse_'' @ relationship"
  have e: "object @ '':reverse_'' @ relationship = object @ CHR '':'' # b"
    by (simp add: b_def)
  assume "forward_key (object @ '':reverse_'' @ relationship)"
  then have f: "length (Split (object @ CHR '':'' # b) CHR '':'') = 2 \<and>
      \<not> HasPrefix (Split (object @ CHR '':'' # b) CHR '':'' ! 1) ''reverse_''"
    unfolding e forward_key_def .
  then have "Split (object @ CHR '':'' # b) CHR '':'' ! 1 = b"
    using two_parts_second by blast
  moreover have "HasPrefix b ''reverse_''"
    by (simp add: b_def)
  ultimately show False using f by simp
qed

lemma concat_map_update_hidden:
  assumes "\<And>v. f (k, v) = []"
  shows "concat (map f (AList.update k v m)) = concat (map f m)"
  using assms by (induction m) auto

lemma concat_map_add_to_cache:
  assumes "\<And>key v. \<not> forward_key key \<Longrightarrow> f (key, v) = []"
    and "CHR '':'' \<in> set subject"
  shows "concat (map f (add_to_cache m subject relationship object)) = concat (map f m)"
  unfolding add_to_cache_def Let_def
  using assms(1) [OF colon_key_not_forward [OF assms(2)]] assms(1) [OF reverse_key_not_forward]
  by (simp add: concat_map_update_hidden)

lemma getDirectRelationships_add:
  assumes "CHR '':'' \<in> set subject"
  shows "getDirectRelationships (snd (AddRelationship e subject relationship object)) s ob =
         getDirectRelationships e s ob"
proof (cases "rebac_AddRelationship (rebac_repo e) subject relationship object")
  case None
  have "concat (map (\<lambda>(key, rels).
       let parts = Split key CHR '':''
       in if length parts = 2 \<and> parts ! 0 = s \<and> \<not> HasPrefix (parts ! 1) ''reverse_''
          then filter (\<lambda>rel. rel_Object rel = ob) rels else [])
          (add_to_cache (relationships e) subject relationship object)) =
        concat (map (\<lambda>(key, rels).
       let parts = Split key CHR '':''
       in if length parts = 2 \<and> parts ! 0 = s \<and> \<not> HasPrefix (parts ! 1) ''reverse_''
          then filter (\<lambda>rel. rel_Object rel = ob) rels else []) (relationships e))"
    by (rule concat_map_add_to_cache) (auto simp: forward_key_def Let_def assms)
  then show ?thesis
    using None by (simp add: getDirectRelationships_def AddRelationship_def)
next
  case (Some err)
  then show ?thesis by (simp add: AddRelationship_def)
qed

lemma GetRelationships_add:
  assumes "CHR '':'' \<in> set subject"
  shows "GetRelationships (snd (AddRelationship e subject relationship object)) s =
         GetRelationships e s"
proof (cases "rebac_AddRelationship (rebac_repo e) subject relationship object")
  case None
  have a: "concat (map (\<lambda>(key, rels).
          let parts = Split key CHR '':''
          in if length parts = 2 \<and> parts ! 0 = s \<and> \<not> HasPrefix (parts ! 1) ''reverse_''
             then rels else []) (add_to_cache (relationships e) subject relationship object)) =
        concat (map (\<lambda>(key, rels).
          let parts = Split key CHR '':''
          in if length parts = 2 \<and> parts ! 0 = s \<and> \<not> HasPrefix (parts ! 1) ''reverse_''
             then rels else []) (relationships e))"
    by (rule concat_map_add_to_cache) (auto simp: forward_key_def Let_def assms)
  have b: "concat (map (\<lambda>(key, rels).
          let parts = Split key CHR '':''
          in if length parts = 2 \<and> \<not> HasPrefix (parts ! 1) ''reverse_''
             then rels else []) (add_to_cache (relationships e) subject relationship object)) =
        concat (map (\<lambda>(key, rels).
          let parts = Split key CHR '':''
          in if length parts = 2 \<and> \<not> HasPrefix (parts ! 1) ''reverse_''
             then rels else []) (relationships e))"
    by (rule concat_map_add_to_cache) (auto simp: forward_key_def Let_def assms)
  show ?thesis
    using None a b by (simp add: GetRelationships_def AddRelationship_def)
next
  case (Some err)
  then show ?thesis by (simp add: AddRelationship_def)
qed


lemma no_forward_concat:
  assumes "\<forall>k \<in> fst ` set m. \<not> forward_key k"
    and "\<And>key v. \<not> forward_key key \<Longrightarrow> f (key, v) = []"
  shows "concat (map f m) = []"
  using assms by (induction m) auto

lemma no_forward_getDirect:
  assumes "\<forall>k \<in> fst ` set (relationships e). \<not> forward_key k"
  shows "getDirectRelationships e s ob = []"
  unfolding getDirectRelationships_def
  by (rule no_forward_concat [OF assms]) (auto simp: forward_key_def Let_def)

lemma no_forward_group_loop:
  assumes "\<forall>k \<in> fst ` set (relationships e). \<not> forward_key k"
  shows "group_loop e s ob p groups = (False, [])"
  by (induction groups) (simp_all add: no_forward_getDirect [OF assms])

lemma no_forward_checkGroupAccess:
  assumes "\<forall>k \<in> fst ` set (relationships e). \<not> forward_key k"
  shows "checkGroupAccess e s ob p = (False, [])"
  by (simp add: checkGroupAccess_def no_forward_group_loop [OF assms] split: option.splits)

lemma not_forward_not_parent:
  assumes "\<not> forward_key key"
  shows "length (Split key CHR '':'') \<noteq> 2 \<or> Split key CHR '':'' ! 1 \<noteq> ''parent''"
proof (cases "length (Split key CHR '':'') = 2")
  case True
  then have "HasPrefix (Split key CHR '':'' ! 1) ''reverse_''"
    using assms by (simp add: forward_key_def)
  moreover have "\<not> HasPrefix ''parent'' ''reverse_''" by simp
  ultimately show ?thesis by metis
next
  case False
  then show ?thesis by simp
qed

lemma no_forward_hier_keys:
  assumes "\<forall>k \<in> fst ` set m. \<not> forward_key k"
  shows "hier_keys enforce ob m = Some (False, [])"
  using assms
proof (induction m)
  case Nil
  then show ?case by simp
next
  case (Cons kv m)
  obtain key rels where kv: "kv = (key, rels)" by (cases kv)
  have "length (Split key CHR '':'') \<noteq> 2 \<or> Split key CHR '':'' ! 1 \<noteq> ''parent''"
    using Cons.prems kv not_forward_not_parent by simp
  then show ?case
    using Cons by (simp add: kv Let_def)
qed

lemma no_forward_expand_keys:
  assumes "\<forall>k \<in> fst ` set m. \<not> forward_key k"
  shows "expand_keys visited node path depth m = []"
  using assms
proof (induction m)
  case Nil
  then show ?case by simp
next
  case (Cons kv m)
  obtain key rels where kv: "kv = (key, rels)" by (cases kv)
  have "\<not> forward_key key" using Cons.prems kv by simp
  then show ?case
    using Cons by (auto simp: kv Let_def forward_key_def)
qed

lemma no_forward_FindRelationshipPath:
  assumes "\<forall>k \<in> fst ` set (relationships e). \<not> forward_key k" and "s \<noteq> t"
  shows "FindRelationshipPath e s t d = (False, [])"
  using assms(2)
  by (simp add: FindRelationshipPath_def Let_def no_forward_expand_keys [OF assms(1)])

lemma no_forward_Enforce:
  assumes "\<forall>k \<in> fst ` set (relationships e). \<not> forward_key k" and "s \<noteq> ob"
  shows "ReBAC_Enforce (Suc n) e s ob a = Some (False, [])"
  by (simp add: Let_def no_forward_getDirect [OF assms(1)]
      no_forward_checkGroupAccess [OF assms(1)] checkHierarchicalAccess_def
      no_forward_hier_keys [OF assms(1)] checkSocialAccess_def
      no_forward_FindRelationshipPath [OF assms])

lemma keys_add_to_cache:
  "fst ` set (add_to_cache m subject relationship object) =
     {subject @ '':'' @ relationship, object @ '':reverse_'' @ relationship} \<union> fst ` set m"
  unfolding add_to_cache_def Let_def by (simp only: dom_update) auto

lemma fresh_add_no_forward:
  assumes "CHR '':'' \<in> set subject" and "relationships e = []"
  shows "\<forall>k \<in> fst ` set (relationships (snd (AddRelationship e subject relationship object))).
           \<not> forward_key k"
proof (cases "rebac_AddRelationship (rebac_repo e) subject relationship object")
  case None
  then have "fst ` set (relationships (snd (AddRelationship e subject relationship object))) =
      {subject @ '':'' @ relationship, object @ '':reverse_'' @ relationship}"
    by (simp add: AddRelationship_def keys_add_to_cache assms(2))
  then show ?thesis
    using colon_key_not_forward [OF assms(1)] reverse_key_not_forward by simp
next
  case (Some err)
  then show ?thesis by (simp add: AddRelationship_def assms(2))
qed

text \<open>
  C10. When the subject of a relationship contains a colon, adding the relationship
  changes neither what \<^verbatim>\<open>getDirectRelationships\<close> returns, for any subject and object, nor
  what \<^verbatim>\<open>GetRelationships\<close> lists, for any subject or for all: its key splits into three
  parts or more and is skipped. And on a cache that was empty, \<^verbatim>\<open>Enforce\<close> for that subject
  and object then denies every action, whatever the relationship grants.
\<close>

theorem colon_subject_edge_unseen:
  assumes "CHR '':'' \<in> set subject"
  shows "getDirectRelationships (snd (AddRelationship e subject relationship object)) s ob =
           getDirectRelationships e s ob \<and>
         GetRelationships (snd (AddRelationship e subject relationship object)) s =
           GetRelationships e s \<and>
         (relationships e = [] \<and> subject \<noteq> object \<longrightarrow>
            ReBAC_Enforce (Suc n) (snd (AddRelationship e subject relationship object))
              subject object action = Some (False, []))"
  using getDirectRelationships_add [OF assms] GetRelationships_add [OF assms]
    no_forward_Enforce [OF fresh_add_no_forward [OF assms]]
  by blast

lemma rebac_colon_cache:
  "relationships rebac_colon =
     [(''a:b:owner'',
       [\<lparr>rel_Subject = ''a:b'', rel_Relationship = ''owner'', rel_Object = ''doc''\<rparr>]),
      (''doc:reverse_owner'',
       [\<lparr>rel_Subject = ''doc'', rel_Relationship = ''reverse_owner'', rel_Object = ''a:b''\<rparr>])]"
  by (simp add: rebac_colon_def add_all_def AddRelationship_def rebac_empty_def rebac_repo_ok_def
      add_to_cache_def rels_at_def Let_def)

lemma rebac_colon_step: "rebac_colon = snd (AddRelationship rebac_empty ''a:b'' ''owner'' ''doc'')"
  by (simp add: rebac_colon_def add_all_def)

lemma owner_grants_read: "hasPermissionThroughRelationship rebac_colon ''owner'' ''read''"
  by (simp add: hasPermissionThroughRelationship_def rebac_colon_def add_all_def
      AddRelationship_def rebac_empty_def rebac_repo_ok_def defaultPermissions_def)

theorem colon_subject_edge_unseen_witness:
  "CHR '':'' \<in> set ''a:b'' \<and>
   rels_at (relationships rebac_colon) ''a:b:owner'' =
     [\<lparr>rel_Subject = ''a:b'', rel_Relationship = ''owner'', rel_Object = ''doc''\<rparr>] \<and>
   hasPermissionThroughRelationship rebac_colon ''owner'' ''read'' \<and>
   getDirectRelationships rebac_colon ''a:b'' ''doc'' = [] \<and>
   GetRelationships rebac_colon [] = [] \<and>
   ReBAC_Enforce 1 rebac_colon ''a:b'' ''doc'' ''read'' = Some (False, [])"
proof -
  have h: "CHR '':'' \<in> set ''a:b''" by simp
  have e: "relationships rebac_empty = []" by (simp add: rebac_empty_def)
  have ne: "''a:b'' \<noteq> ''doc''" by simp
  have g0: "getDirectRelationships rebac_empty ''a:b'' ''doc'' = []"
    by (simp add: getDirectRelationships_def e)
  have l0: "GetRelationships rebac_empty [] = []"
    by (simp add: GetRelationships_def e)
  have c: "rels_at (relationships rebac_colon) ''a:b:owner'' =
     [\<lparr>rel_Subject = ''a:b'', rel_Relationship = ''owner'', rel_Object = ''doc''\<rparr>]"
    by (simp add: rebac_colon_cache rels_at_def)
  show ?thesis
    using h e ne g0 l0 c owner_grants_read
      colon_subject_edge_unseen [OF h, of rebac_empty "''owner''" "''doc''" "''a:b''" "''doc''" 0 "''read''"]
      colon_subject_edge_unseen [OF h, of rebac_empty "''owner''" "''doc''" "[]" "''doc''" 0 "''read''"]
    by (simp add: rebac_colon_step)
qed

section \<open>The path that ReBAC enforcement returns\<close>

























lemma arrow_form_group_path:
  "arrow_form ''alice'' ''source_code''
     ''alice -[member]-> eng_team -[group_access]-> source_code''"
  by (simp add: arrow_form_def is_arrow_def HasSuffix_def Let_def)

lemma Split_chain:
  assumes "CHR '' '' \<notin> set s"
    and "\<forall>(r, n) \<in> set segs. CHR '' '' \<notin> set r \<and> CHR '' '' \<notin> set n"
  shows "Split (s @ segments segs) CHR '' '' =
           s # concat (map (\<lambda>(r, n). [''-['' @ r @ '']->'', n]) segs)"
  using assms
proof (induction segs arbitrary: s)
  case Nil
  then show ?case by (simp add: Split_no_sep)
next
  case (Cons seg segs)
  obtain r n where seg: "seg = (r, n)" by (cases seg)
  define w where "w = ''-['' @ r @ '']->''"
  have r: "CHR '' '' \<notin> set r" and n: "CHR '' '' \<notin> set n"
    using Cons.prems(2) seg by auto
  have w: "CHR '' '' \<notin> set w"
    using r by (simp add: w_def)
  have rest: "Split (n @ segments segs) CHR '' '' =
      n # concat (map (\<lambda>(r, n). [''-['' @ r @ '']->'', n]) segs)"
    using Cons.IH [OF n] Cons.prems(2) by simp
  have "s @ segments (seg # segs) = s @ CHR '' '' # (w @ CHR '' '' # (n @ segments segs))"
    by (simp add: seg w_def)
  then have "Split (s @ segments (seg # segs)) CHR '' '' =
      Split s CHR '' '' @ Split w CHR '' '' @ Split (n @ segments segs) CHR '' ''"
    by (simp only: Split_append)
  then show ?case
    using Cons.prems(1) w rest by (simp add: Split_no_sep seg w_def)
qed

lemma is_arrow_segment: "is_arrow (''-['' @ r @ '']->'')"
proof -
  have "HasPrefix (rev '']->'' @ rev r @ rev ''-['') (rev '']->'')"
    by (rule HasPrefix_append)
  then show ?thesis by (simp add: is_arrow_def HasSuffix_def)
qed

lemma alternating_chain:
  "alternating (s # concat (map (\<lambda>(r, n). [''-['' @ r @ '']->'', n]) segs))"
proof (induction segs arbitrary: s)
  case Nil
  then show ?case by simp
next
  case (Cons seg segs)
  obtain r n where seg: "seg = (r, n)" by (cases seg)
  show ?case
    using Cons.IH [of n] is_arrow_segment [of r] by (simp add: seg)
qed

lemma last_chain:
  "last (s # concat (map (\<lambda>(r, n). [''-['' @ r @ '']->'', n]) segs)) = last (s # map snd segs)"
proof (induction segs arbitrary: s)
  case Nil
  then show ?case by simp
next
  case (Cons seg segs)
  obtain r n where seg: "seg = (r, n)" by (cases seg)
  show ?case
    using Cons.IH [of n] by (simp add: seg)
qed

text \<open>
  Every chain over names without blanks has the form \<open>arrow_form\<close> tests, so a path that
  fails the test is not such a chain.
\<close>

lemma arrow_form_chain:
  assumes "CHR '' '' \<notin> set s"
    and "\<forall>(r, n) \<in> set segs. CHR '' '' \<notin> set r \<and> CHR '' '' \<notin> set n"
  shows "arrow_form s (target (Chain s segs)) (render (Chain s segs))"
  unfolding arrow_form_def Let_def render.simps target.simps Split_chain [OF assms]
  using alternating_chain [of s segs] last_chain [of s segs] by simp

section \<open>Fuel of ReBAC enforcement\<close>

text \<open>
  A result that \<^verbatim>\<open>Enforce\<close> reaches with some fuel it reaches with any more: the fuel only
  cuts off calls that have not returned yet, it never changes what a call returns.
\<close>

lemma hier_rels_mono:
  assumes "\<And>p r. enf p = Some r \<Longrightarrow> enf' p = Some r"
    and "hier_rels enf parent ob rels = Some r"
  shows "hier_rels enf' parent ob rels = Some r"
  using assms(2)
proof (induction rels)
  case Nil
  then show ?case by simp
next
  case (Cons rel rels)
  show ?case
  proof (cases "rel_Object rel = ob")
    case True
    then obtain h pp where c: "enf parent = Some (h, pp)"
      using Cons.prems by (cases "enf parent") auto
    then have "enf' parent = Some (h, pp)" by (rule assms(1))
    then show ?thesis
      using Cons True c by (auto split: if_splits)
  next
    case False
    then show ?thesis using Cons by simp
  qed
qed

lemma hier_keys_mono:
  assumes "\<And>p r. enf p = Some r \<Longrightarrow> enf' p = Some r"
    and "hier_keys enf ob m = Some r"
  shows "hier_keys enf' ob m = Some r"
  using assms(2)
proof (induction m)
  case Nil
  then show ?case by simp
next
  case (Cons kv m)
  obtain key rels where kv: "kv = (key, rels)" by (cases kv)
  show ?case
  proof (cases "length (Split key CHR '':'') \<noteq> 2 \<or> Split key CHR '':'' ! 1 \<noteq> ''parent''")
    case True
    then show ?thesis using Cons by (simp add: kv Let_def)
  next
    case False
    then obtain f pth where c: "hier_rels enf (Split key CHR '':'' ! 0) ob rels = Some (f, pth)"
      using Cons.prems by (cases "hier_rels enf (Split key CHR '':'' ! 0) ob rels") (auto simp: kv Let_def)
    then have "hier_rels enf' (Split key CHR '':'' ! 0) ob rels = Some (f, pth)"
      using assms(1) hier_rels_mono by blast
    then show ?thesis
      using Cons False c by (auto simp: kv Let_def split: if_splits)
  qed
qed

lemma ReBAC_Enforce_more_fuel:
  "ReBAC_Enforce n e s ob a = Some r \<Longrightarrow> ReBAC_Enforce (Suc n) e s ob a = Some r"
proof (induction n arbitrary: ob a r)
  case 0
  then show ?case by simp
next
  case (Suc n)
  let ?p = "mapActionToPermission a"
  let ?h = "\<lambda>k. checkHierarchicalAccess (\<lambda>parentObject. ReBAC_Enforce k e s parentObject ?p) e ob"
  define F where "F = (\<lambda>h.
      case find (\<lambda>rel. hasPermissionThroughRelationship e (rel_Relationship rel) ?p)
                (getDirectRelationships e s ob) of
           Some rel \<Rightarrow>
             Some (True, s @ '' -['' @ rel_Relationship rel @ '']-> '' @ ob)
         | None \<Rightarrow>
             (case checkGroupAccess e s ob ?p of
                (True, groupPath) \<Rightarrow> Some (True, groupPath)
              | (False, groupPath) \<Rightarrow>
                  (case h of
                     None \<Rightarrow> None
                   | Some (True, hierarchicalPath) \<Rightarrow> Some (True, hierarchicalPath)
                   | Some (False, hierarchicalPath) \<Rightarrow>
                       if ?p = ''read'' \<or> ?p = ''read_limited'' then
                         (case checkSocialAccess e s ob 3 of
                            (True, socialPath) \<Rightarrow> Some (True, socialPath)
                          | (False, socialPath) \<Rightarrow> Some (False, []))
                       else Some (False, []))))"
  have unfold: "ReBAC_Enforce (Suc k) e s ob a = F (?h k)" for k
    by (simp add: F_def Let_def)
  have early: "F h = Some r" if "F None = Some r" for h
  proof (cases "find (\<lambda>rel. hasPermissionThroughRelationship e (rel_Relationship rel) ?p)
                (getDirectRelationships e s ob)")
    case None
    obtain g gp where grp: "checkGroupAccess e s ob ?p = (g, gp)"
      by (cases "checkGroupAccess e s ob ?p")
    show ?thesis
      using that None grp by (cases g) (auto simp: F_def)
  next
    case (Some rel)
    then show ?thesis using that by (simp add: F_def)
  qed
  have pt: "ReBAC_Enforce (Suc n) e s p ?p = Some r'"
    if "ReBAC_Enforce n e s p ?p = Some r'" for p r'
    using that by (rule Suc.IH)
  have mono: "?h (Suc n) = Some hr" if "?h n = Some hr" for hr
    using that unfolding checkHierarchicalAccess_def
    by (rule hier_keys_mono [where enf = "\<lambda>parentObject. ReBAC_Enforce n e s parentObject ?p"
          and enf' = "\<lambda>parentObject. ReBAC_Enforce (Suc n) e s parentObject ?p", rotated])
       (rule pt)
  have now: "F (?h n) = Some r"
    using Suc.prems by (simp only: unfold)
  have "F (?h (Suc n)) = Some r"
  proof (cases "?h n")
    case None
    then show ?thesis using now early by simp
  next
    case (Some hr)
    then show ?thesis using now mono by simp
  qed
  then show ?case by (simp only: unfold)
qed

lemma ReBAC_Enforce_fuel:
  "ReBAC_Enforce n e s ob a = Some r \<Longrightarrow> ReBAC_Enforce (n + k) e s ob a = Some r"
  by (induction k) (simp_all add: ReBAC_Enforce_more_fuel del: ReBAC_Enforce.simps)

end
